theory Spec2Isabelle
  imports Main
begin

section \<open>Raw memory, element types and outcomes\<close>

text \<open>
  The model of \<^verbatim>\<open>src/advanced-vector/vector.h\<close>. Raw memory is a store of blocks; a block
  is a list of slots, and a slot is either raw (\<open>None\<close>) or holds a constructed element
  (\<open>Some v\<close>). A pointer \<^verbatim>\<open>T*\<close> is a block address (\<open>None\<close> is \<^verbatim>\<open>nullptr\<close>) and an
  offset in slots. Every allocation, deallocation, constructor call, assignment and
  destructor call is appended to a trace, and every block that is deallocated is kept,
  with the slots as they were at that moment, in the list \<open>released\<close>. \<^verbatim>\<open>size_t\<close> is \<open>nat\<close>: sizes are
  taken to stay below \<open>2^63\<close>, so that \<^verbatim>\<open>size_ * 2\<close> does not wrap around; \<^verbatim>\<open>size_ - 1\<close> in
  \<^verbatim>\<open>PopBack\<close>, which does wrap around on an empty vector, has the wrap written out.
  \<^verbatim>\<open>operator new\<close> is taken to succeed.
\<close>

type_synonym addr = nat
type_synonym ptr = "addr option \<times> nat"

datatype event =
    Allocate addr nat
  | Deallocate addr
  | ValueConstruct ptr
  | CopyConstruct ptr
  | MoveConstruct ptr
  | ArgsConstruct ptr
  | CopyAssign ptr
  | MoveAssign ptr
  | Destroy ptr

record 'a heap =
  blocks :: "addr \<Rightarrow> 'a option list option"
  next_addr :: addr
  released :: "(addr \<times> 'a option list) list"
  trace :: "event list"

text \<open>
  How a call ends: normally, by a thrown exception, by a failed \<^verbatim>\<open>assert\<close>, or in
  undefined behaviour (access to a slot that is not there or not in the needed state).
\<close>

datatype 'r res = Ok 'r | Throw | AssertFail | Undefined

fun and_then :: "'r res \<times> 's \<Rightarrow> ('r \<Rightarrow> 's \<Rightarrow> 'q res \<times> 's) \<Rightarrow> 'q res \<times> 's" where
  "and_then (Ok r, s) f = f r s"
| "and_then (Throw, s) f = (Throw, s)"
| "and_then (AssertFail, s) f = (AssertFail, s)"
| "and_then (Undefined, s) f = (Undefined, s)"

text \<open>\<^verbatim>\<open>try { body } catch (...) { handler; throw; }\<close>\<close>

fun catch_rethrow :: "'r res \<times> 's \<Rightarrow> ('s \<Rightarrow> unit res \<times> 's) \<Rightarrow> 'r res \<times> 's" where
  "catch_rethrow (Throw, s) hdl = and_then (hdl s) (\<lambda>_ s'. (Throw, s'))"
| "catch_rethrow (Ok r, s) hdl = (Ok r, s)"
| "catch_rethrow (AssertFail, s) hdl = (AssertFail, s)"
| "catch_rethrow (Undefined, s) hdl = (Undefined, s)"

text \<open>The destructor of a local object runs when its scope is left, normally or by an exception.\<close>

fun at_scope_exit :: "'r res \<times> 's \<Rightarrow> ('s \<Rightarrow> unit res \<times> 's) \<Rightarrow> 'r res \<times> 's" where
  "at_scope_exit (Ok r, s) dtor = and_then (dtor s) (\<lambda>_ s'. (Ok r, s'))"
| "at_scope_exit (Throw, s) dtor = and_then (dtor s) (\<lambda>_ s'. (Throw, s'))"
| "at_scope_exit (AssertFail, s) dtor = (AssertFail, s)"
| "at_scope_exit (Undefined, s) dtor = (Undefined, s)"

text \<open>
  The element type \<^verbatim>\<open>T\<close>. A copy equals its source and a move yields the source's value,
  leaving \<open>moved_from\<close> of it behind; whether a call throws is decided by the source value.
  The two booleans are \<^verbatim>\<open>std::is_nothrow_move_constructible_v<T>\<close> and
  \<^verbatim>\<open>std::is_copy_constructible_v<T>\<close>.
\<close>

record 'a elem =
  value_init :: "'a option"
  copy_throws :: "'a \<Rightarrow> bool"
  move_throws :: "'a \<Rightarrow> bool"
  copy_assign_throws :: "'a \<Rightarrow> bool"
  move_assign_throws :: "'a \<Rightarrow> bool"
  moved_from :: "'a \<Rightarrow> 'a"
  nothrow_move_constructible :: bool
  copy_constructible :: bool

text \<open>
  The arguments of a constructor call \<^verbatim>\<open>T(std::forward<Args>(args)...)\<close>: an lvalue of \<^verbatim>\<open>T\<close>
  (copy), an rvalue of \<^verbatim>\<open>T\<close> (move), or anything else, given by what the constructor makes
  of it (\<open>None\<close>: it throws). The arguments live outside the vector's buffer.
\<close>

datatype 'a ctor_args = Lvalue 'a | Rvalue 'a | Args "'a option"

definition slot :: "'a heap \<Rightarrow> ptr \<Rightarrow> 'a option option" where
  "slot h p = (case fst p of None \<Rightarrow> None
     | Some a \<Rightarrow> (case blocks h a of None \<Rightarrow> None
         | Some b \<Rightarrow> if snd p < length b then Some (b ! snd p) else None))"

definition store :: "ptr \<Rightarrow> 'a option \<Rightarrow> 'a heap \<Rightarrow> 'a heap" where
  "store p x h = (case fst p of None \<Rightarrow> h
     | Some a \<Rightarrow> (case blocks h a of None \<Rightarrow> h
         | Some b \<Rightarrow> h\<lparr>blocks := (blocks h)(a \<mapsto> b[snd p := x])\<rparr>))"

definition log :: "event \<Rightarrow> 'a heap \<Rightarrow> 'a heap" where
  "log e h = h\<lparr>trace := trace h @ [e]\<rparr>"

definition ptr_add :: "ptr \<Rightarrow> nat \<Rightarrow> ptr" where
  "ptr_add p k = (fst p, snd p + k)"

text \<open>Placement new of a value that the constructor has produced.\<close>

definition construct_at :: "(ptr \<Rightarrow> event) \<Rightarrow> ptr \<Rightarrow> 'a \<Rightarrow> 'a heap \<Rightarrow> unit res \<times> 'a heap" where
  "construct_at ev p v h = (case slot h p of None \<Rightarrow> (Undefined, h)
     | Some _ \<Rightarrow> (Ok (), log (ev p) (store p (Some v) h)))"

definition destroy_at :: "ptr \<Rightarrow> 'a heap \<Rightarrow> unit res \<times> 'a heap" where
  "destroy_at p h = (case slot h p of Some (Some v) \<Rightarrow> (Ok (), log (Destroy p) (store p None h))
     | _ \<Rightarrow> (Undefined, h))"


section \<open>The standard algorithms the source calls\<close>

text \<open>\<^verbatim>\<open>T(std::forward<Args>(args)...)\<close>: the value made and the kind of constructor that ran.\<close>

definition construct_from :: "'a elem \<Rightarrow> 'a ctor_args \<Rightarrow> ('a \<times> (ptr \<Rightarrow> event)) option" where
  "construct_from T args = (case args of
       Lvalue x \<Rightarrow> if copy_throws T x then None else Some (x, CopyConstruct)
     | Rvalue x \<Rightarrow> if move_throws T x then None else Some (x, MoveConstruct)
     | Args r \<Rightarrow> (case r of None \<Rightarrow> None | Some x \<Rightarrow> Some (x, ArgsConstruct)))"

definition placement_new :: "'a elem \<Rightarrow> ptr \<Rightarrow> 'a ctor_args \<Rightarrow> 'a heap \<Rightarrow> unit res \<times> 'a heap" where
  "placement_new T p args h = (case construct_from T args of None \<Rightarrow> (Throw, h)
     | Some (x, ev) \<Rightarrow> construct_at ev p x h)"

fun destroy_n :: "ptr \<Rightarrow> nat \<Rightarrow> 'a heap \<Rightarrow> unit res \<times> 'a heap" where
  "destroy_n p 0 h = (Ok (), h)"
| "destroy_n p (Suc n) h = and_then (destroy_at p h) (\<lambda>_. destroy_n (ptr_add p 1) n)"

text \<open>
  The \<^verbatim>\<open>uninitialized_*\<close> algorithms construct slot after slot, from \<open>first\<close> on; when a
  constructor throws they destroy what they have constructed and rethrow. The standard
  leaves the order of that destruction open; libstdc++ runs \<^verbatim>\<open>std::_Destroy(first, cur)\<close>,
  from the first constructed slot to the last, and so does the model. In the loops below
  \<open>k\<close> counts the slots constructed so far, so that \<open>cur\<close> is \<open>first + k\<close>.
\<close>

fun value_construct_loop :: "'a elem \<Rightarrow> ptr \<Rightarrow> nat \<Rightarrow> nat \<Rightarrow> 'a heap \<Rightarrow> unit res \<times> 'a heap" where
  "value_construct_loop T first k 0 h = (Ok (), h)"
| "value_construct_loop T first k (Suc n) h = (case value_init T of
       None \<Rightarrow> and_then (destroy_n first k h) (\<lambda>_ h'. (Throw, h'))
     | Some x \<Rightarrow> and_then (construct_at ValueConstruct (ptr_add first k) x h)
         (\<lambda>_. value_construct_loop T first (Suc k) n))"

definition uninitialized_value_construct_n :: "'a elem \<Rightarrow> ptr \<Rightarrow> nat \<Rightarrow> 'a heap \<Rightarrow> unit res \<times> 'a heap" where
  "uninitialized_value_construct_n T first n h = value_construct_loop T first 0 n h"

fun copy_construct_loop :: "'a elem \<Rightarrow> ptr \<Rightarrow> nat \<Rightarrow> ptr \<Rightarrow> nat \<Rightarrow> 'a heap \<Rightarrow> unit res \<times> 'a heap" where
  "copy_construct_loop T src 0 first k h = (Ok (), h)"
| "copy_construct_loop T src (Suc n) first k h = (case slot h src of
       Some (Some x) \<Rightarrow>
         if copy_throws T x then and_then (destroy_n first k h) (\<lambda>_ h'. (Throw, h'))
         else and_then (construct_at CopyConstruct (ptr_add first k) x h)
           (\<lambda>_. copy_construct_loop T (ptr_add src 1) n first (Suc k))
     | _ \<Rightarrow> (Undefined, h))"

definition uninitialized_copy_n :: "'a elem \<Rightarrow> ptr \<Rightarrow> nat \<Rightarrow> ptr \<Rightarrow> 'a heap \<Rightarrow> unit res \<times> 'a heap" where
  "uninitialized_copy_n T src n dst h = copy_construct_loop T src n dst 0 h"

fun move_construct_loop :: "'a elem \<Rightarrow> ptr \<Rightarrow> nat \<Rightarrow> ptr \<Rightarrow> nat \<Rightarrow> 'a heap \<Rightarrow> unit res \<times> 'a heap" where
  "move_construct_loop T src 0 first k h = (Ok (), h)"
| "move_construct_loop T src (Suc n) first k h = (case slot h src of
       Some (Some x) \<Rightarrow>
         if move_throws T x then and_then (destroy_n first k h) (\<lambda>_ h'. (Throw, h'))
         else and_then (construct_at MoveConstruct (ptr_add first k) x h)
           (\<lambda>_ h1. move_construct_loop T (ptr_add src 1) n first (Suc k)
                      (store src (Some (moved_from T x)) h1))
     | _ \<Rightarrow> (Undefined, h))"

definition uninitialized_move_n :: "'a elem \<Rightarrow> ptr \<Rightarrow> nat \<Rightarrow> ptr \<Rightarrow> 'a heap \<Rightarrow> unit res \<times> 'a heap" where
  "uninitialized_move_n T src n dst h = move_construct_loop T src n dst 0 h"

text \<open>\<^verbatim>\<open>*dst = *src\<close> and \<^verbatim>\<open>*dst = std::move(*src)\<close> on two constructed slots.\<close>

definition copy_assign_at :: "'a elem \<Rightarrow> ptr \<Rightarrow> ptr \<Rightarrow> 'a heap \<Rightarrow> unit res \<times> 'a heap" where
  "copy_assign_at T dst src h = (case (slot h dst, slot h src) of
       (Some (Some y), Some (Some x)) \<Rightarrow>
         if copy_assign_throws T x then (Throw, h)
         else (Ok (), log (CopyAssign dst) (store dst (Some x) h))
     | _ \<Rightarrow> (Undefined, h))"

definition move_assign_at :: "'a elem \<Rightarrow> ptr \<Rightarrow> ptr \<Rightarrow> 'a heap \<Rightarrow> unit res \<times> 'a heap" where
  "move_assign_at T dst src h = (case (slot h dst, slot h src) of
       (Some (Some y), Some (Some x)) \<Rightarrow>
         if move_assign_throws T x then (Throw, h)
         else (Ok (), log (MoveAssign dst) (store src (Some (moved_from T x)) (store dst (Some x) h)))
     | _ \<Rightarrow> (Undefined, h))"

fun copy_n :: "'a elem \<Rightarrow> ptr \<Rightarrow> nat \<Rightarrow> ptr \<Rightarrow> 'a heap \<Rightarrow> unit res \<times> 'a heap" where
  "copy_n T src 0 dst h = (Ok (), h)"
| "copy_n T src (Suc n) dst h =
     and_then (copy_assign_at T dst src h) (\<lambda>_. copy_n T (ptr_add src 1) n (ptr_add dst 1))"

text \<open>\<^verbatim>\<open>std::move(first, last, d_first)\<close>, front to back, over \<open>n = last - first\<close> slots.\<close>

fun move_forward :: "'a elem \<Rightarrow> ptr \<Rightarrow> nat \<Rightarrow> ptr \<Rightarrow> 'a heap \<Rightarrow> unit res \<times> 'a heap" where
  "move_forward T first 0 d_first h = (Ok (), h)"
| "move_forward T first (Suc n) d_first h =
     and_then (move_assign_at T d_first first h)
       (\<lambda>_. move_forward T (ptr_add first 1) n (ptr_add d_first 1))"

text \<open>\<^verbatim>\<open>std::move_backward(first, last, d_last)\<close>, back to front: slot \<open>n - 1\<close> of the range first.\<close>

fun move_backward :: "'a elem \<Rightarrow> ptr \<Rightarrow> nat \<Rightarrow> ptr \<Rightarrow> 'a heap \<Rightarrow> unit res \<times> 'a heap" where
  "move_backward T first 0 d_first h = (Ok (), h)"
| "move_backward T first (Suc n) d_first h =
     and_then (move_assign_at T (ptr_add d_first n) (ptr_add first n) h)
       (\<lambda>_. move_backward T first n d_first)"

text \<open>A range \<^verbatim>\<open>[first, last)\<close> of one buffer: its length, or nothing when it is not a range.\<close>

definition distance :: "ptr \<Rightarrow> ptr \<Rightarrow> nat option" where
  "distance p q = (if fst p = fst q \<and> snd p \<le> snd q then Some (snd q - snd p) else None)"


section \<open>RawMemory\<close>

text \<open>The fields \<^verbatim>\<open>buffer_\<close> and \<^verbatim>\<open>capacity_\<close>.\<close>

record RawMemory =
  buffer :: "addr option"
  capacity :: nat

text \<open>\<^verbatim>\<open>Allocate\<close>: a fresh block of \<open>n\<close> raw slots, \<^verbatim>\<open>nullptr\<close> for \<open>n = 0\<close>.\<close>

definition Allocate_raw :: "nat \<Rightarrow> 'a heap \<Rightarrow> addr option \<times> 'a heap" where
  "Allocate_raw n h = (if n \<noteq> 0
     then (Some (next_addr h),
           log (Allocate (next_addr h) n)
             (h\<lparr>blocks := (blocks h)(next_addr h \<mapsto> replicate n None), next_addr := Suc (next_addr h)\<rparr>))
     else (None, h))"

text \<open>
  \<^verbatim>\<open>Deallocate\<close>: \<^verbatim>\<open>operator delete\<close> does nothing on \<^verbatim>\<open>nullptr\<close>; on a block that is not
  allocated (any more) it is undefined behaviour. The elements still constructed in the
  block are not destroyed.
\<close>

definition Deallocate_raw :: "addr option \<Rightarrow> 'a heap \<Rightarrow> unit res \<times> 'a heap" where
  "Deallocate_raw buf h = (case buf of None \<Rightarrow> (Ok (), h)
     | Some a \<Rightarrow> (case blocks h a of None \<Rightarrow> (Undefined, h)
         | Some b \<Rightarrow> (Ok (), log (Deallocate a)
             (h\<lparr>blocks := (blocks h)(a := None), released := released h @ [(a, b)]\<rparr>))))"

definition RawMemory_default :: RawMemory where
  "RawMemory_default = \<lparr>buffer = None, capacity = 0\<rparr>"

text \<open>\<^verbatim>\<open>explicit RawMemory(size_t capacity)\<close>\<close>

definition RawMemory_sized :: "nat \<Rightarrow> 'a heap \<Rightarrow> RawMemory \<times> 'a heap" where
  "RawMemory_sized n h = (case Allocate_raw n h of (b, h') \<Rightarrow> (\<lparr>buffer = b, capacity = n\<rparr>, h'))"

text \<open>
  \<^verbatim>\<open>RawMemory(RawMemory&& other)\<close>: the new object and what is left of \<open>other\<close>.
\<close>

definition RawMemory_move_ctor :: "RawMemory \<Rightarrow> RawMemory \<times> RawMemory" where
  "RawMemory_move_ctor other =
     (\<lparr>buffer = buffer other, capacity = capacity other\<rparr>, other\<lparr>buffer := None, capacity := 0\<rparr>)"

text \<open>
  \<^verbatim>\<open>operator=(RawMemory&& rhs)\<close> on two different objects: the new \<open>this\<close> and the new
  \<open>rhs\<close>. The block that \<open>this\<close> held is not deallocated: the source overwrites \<^verbatim>\<open>buffer_\<close>.
\<close>

definition RawMemory_move_assign :: "RawMemory \<Rightarrow> RawMemory \<Rightarrow> RawMemory \<times> RawMemory" where
  "RawMemory_move_assign this rhs =
     (this\<lparr>buffer := buffer rhs, capacity := capacity rhs\<rparr>, rhs\<lparr>buffer := None, capacity := 0\<rparr>)"

definition RawMemory_dtor :: "RawMemory \<Rightarrow> 'a heap \<Rightarrow> unit res \<times> 'a heap" where
  "RawMemory_dtor this h = Deallocate_raw (buffer this) h"

text \<open>\<^verbatim>\<open>operator+\<close> and \<^verbatim>\<open>operator[]\<close>, with their assertions.\<close>

definition RawMemory_plus :: "RawMemory \<Rightarrow> nat \<Rightarrow> ptr res" where
  "RawMemory_plus this offset =
     (if offset \<le> capacity this then Ok (buffer this, offset) else AssertFail)"

definition RawMemory_index :: "RawMemory \<Rightarrow> nat \<Rightarrow> ptr res" where
  "RawMemory_index this index =
     (if index < capacity this then Ok (buffer this, index) else AssertFail)"

definition RawMemory_Swap :: "RawMemory \<Rightarrow> RawMemory \<Rightarrow> RawMemory \<times> RawMemory" where
  "RawMemory_Swap this other = (other, this)"

definition GetAddress :: "RawMemory \<Rightarrow> ptr" where
  "GetAddress this = (buffer this, 0)"

section \<open>Vector\<close>

text \<open>The fields \<^verbatim>\<open>data_\<close> and \<^verbatim>\<open>size_\<close>.\<close>

record Vector =
  data :: RawMemory
  vsize :: nat

definition Size :: "Vector \<Rightarrow> nat" where
  "Size this = vsize this"

definition Capacity :: "Vector \<Rightarrow> nat" where
  "Capacity this = capacity (data this)"

definition begin_it :: "Vector \<Rightarrow> ptr" where
  "begin_it this = GetAddress (data this)"

definition end_it :: "Vector \<Rightarrow> ptr" where
  "end_it this = ptr_add (GetAddress (data this)) (Size this)"

definition TransferDataSafely ::
  "'a elem \<Rightarrow> ptr \<Rightarrow> nat \<Rightarrow> ptr \<Rightarrow> 'a heap \<Rightarrow> unit res \<times> 'a heap" where
  "TransferDataSafely T old_begin count new_begin h =
     (if nothrow_move_constructible T \<or> \<not> copy_constructible T
      then uninitialized_move_n T old_begin count new_begin h
      else uninitialized_copy_n T old_begin count new_begin h)"

text \<open>\<^verbatim>\<open>Vector() = default\<close>\<close>

definition Vector_default :: Vector where
  "Vector_default = \<lparr>data = RawMemory_default, vsize = 0\<rparr>"

text \<open>
  A constructor that throws destroys the members already constructed, here \<^verbatim>\<open>data_\<close>;
  the object never comes to exist, so the result carries none.
\<close>

definition Vector_sized :: "'a elem \<Rightarrow> nat \<Rightarrow> 'a heap \<Rightarrow> Vector res \<times> 'a heap" where
  "Vector_sized T n h = (case RawMemory_sized n h of (d, h1) \<Rightarrow>
     (case uninitialized_value_construct_n T (GetAddress d) n h1 of
        (Ok _, h2) \<Rightarrow> (Ok \<lparr>data = d, vsize = n\<rparr>, h2)
      | (Throw, h2) \<Rightarrow> and_then (RawMemory_dtor d h2) (\<lambda>_ h3. (Throw, h3))
      | (AssertFail, h2) \<Rightarrow> (AssertFail, h2)
      | (Undefined, h2) \<Rightarrow> (Undefined, h2)))"

definition Vector_copy_ctor :: "'a elem \<Rightarrow> Vector \<Rightarrow> 'a heap \<Rightarrow> Vector res \<times> 'a heap" where
  "Vector_copy_ctor T other h = (case RawMemory_sized (vsize other) h of (d, h1) \<Rightarrow>
     (case uninitialized_copy_n T (GetAddress (data other)) (vsize other) (GetAddress d) h1 of
        (Ok _, h2) \<Rightarrow> (Ok \<lparr>data = d, vsize = vsize other\<rparr>, h2)
      | (Throw, h2) \<Rightarrow> and_then (RawMemory_dtor d h2) (\<lambda>_ h3. (Throw, h3))
      | (AssertFail, h2) \<Rightarrow> (AssertFail, h2)
      | (Undefined, h2) \<Rightarrow> (Undefined, h2)))"

text \<open>\<^verbatim>\<open>Vector(Vector&& other) noexcept\<close>: the new vector and what is left of \<open>other\<close>.\<close>

definition Vector_move_ctor :: "Vector \<Rightarrow> Vector \<times> Vector" where
  "Vector_move_ctor other = (case RawMemory_move_ctor (data other) of (d, od) \<Rightarrow>
     (\<lparr>data = d, vsize = vsize other\<rparr>, other\<lparr>data := od, vsize := 0\<rparr>))"

text \<open>\<^verbatim>\<open>~Vector()\<close>: the body destroys the elements, then the member \<^verbatim>\<open>data_\<close> is destroyed.\<close>

definition Vector_dtor :: "Vector \<Rightarrow> 'a heap \<Rightarrow> unit res \<times> 'a heap" where
  "Vector_dtor this h =
     and_then (destroy_n (GetAddress (data this)) (vsize this) h) (\<lambda>_. RawMemory_dtor (data this))"

definition Vector_Swap :: "Vector \<Rightarrow> Vector \<Rightarrow> Vector \<times> Vector" where
  "Vector_Swap this other = (case RawMemory_Swap (data this) (data other) of (d, od) \<Rightarrow>
     (this\<lparr>data := d, vsize := vsize other\<rparr>, other\<lparr>data := od, vsize := vsize this\<rparr>))"

text \<open>\<^verbatim>\<open>T& operator[](size_t index)\<close>: the slot referred to.\<close>

definition Vector_index :: "Vector \<Rightarrow> nat \<Rightarrow> ptr res" where
  "Vector_index this index =
     (if index < vsize this then RawMemory_index (data this) index else AssertFail)"


text \<open>\<^verbatim>\<open>++size_\<close> at the end of a member function, reached on the normal path only.\<close>

fun incr_size :: "'r res \<times> Vector \<times> 'a heap \<Rightarrow> 'r res \<times> Vector \<times> 'a heap" where
  "incr_size (Ok r, this, h) = (Ok r, this\<lparr>vsize := vsize this + 1\<rparr>, h)"
| "incr_size (Throw, this, h) = (Throw, this, h)"
| "incr_size (AssertFail, this, h) = (AssertFail, this, h)"
| "incr_size (Undefined, this, h) = (Undefined, this, h)"

text \<open>\<^verbatim>\<open>return begin() + offset;\<close>\<close>

fun return_begin_plus :: "nat \<Rightarrow> unit res \<times> Vector \<times> 'a heap \<Rightarrow> ptr res \<times> Vector \<times> 'a heap" where
  "return_begin_plus offset (Ok _, this, h) = (Ok (ptr_add (begin_it this) offset), this, h)"
| "return_begin_plus offset (Throw, this, h) = (Throw, this, h)"
| "return_begin_plus offset (AssertFail, this, h) = (AssertFail, this, h)"
| "return_begin_plus offset (Undefined, this, h) = (Undefined, this, h)"

text \<open>
  Leaving the scope of a local \<^verbatim>\<open>RawMemory\<close> runs its destructor, on the normal path and
  while an exception unwinds.
\<close>

definition leave_scope :: "RawMemory \<Rightarrow> 'r res \<times> Vector \<times> 'a heap \<Rightarrow> 'r res \<times> Vector \<times> 'a heap" where
  "leave_scope local s = (case s of (r, this, h) \<Rightarrow>
     (case at_scope_exit (r, h) (RawMemory_dtor local) of (r', h') \<Rightarrow> (r', this, h')))"

text \<open>Unsigned subtraction of \<^verbatim>\<open>size_t\<close> (64 bits), wrapping below zero.\<close>

definition size_t_sub :: "nat \<Rightarrow> nat \<Rightarrow> nat" where
  "size_t_sub a b = (if b \<le> a then a - b else a + 2 ^ 64 - b)"

definition ptr_sub :: "ptr \<Rightarrow> nat \<Rightarrow> ptr option" where
  "ptr_sub p k = (if k \<le> snd p then Some (fst p, snd p - k) else None)"

definition Reserve :: "'a elem \<Rightarrow> nat \<Rightarrow> Vector \<Rightarrow> 'a heap \<Rightarrow> unit res \<times> Vector \<times> 'a heap" where
  "Reserve T new_capacity this h =
     (if new_capacity \<le> capacity (data this) then (Ok (), this, h)
      else (case RawMemory_sized new_capacity h of (new_data, h1) \<Rightarrow>
        (case and_then (TransferDataSafely T (GetAddress (data this)) (vsize this) (GetAddress new_data) h1)
                (\<lambda>_. destroy_n (GetAddress (data this)) (vsize this)) of
           (Ok _, h2) \<Rightarrow> (case RawMemory_Swap (data this) new_data of (d, nd) \<Rightarrow>
                           leave_scope nd (Ok (), this\<lparr>data := d\<rparr>, h2))
         | (r, h2) \<Rightarrow> leave_scope new_data (r, this, h2))))"

definition Resize :: "'a elem \<Rightarrow> nat \<Rightarrow> Vector \<Rightarrow> 'a heap \<Rightarrow> unit res \<times> Vector \<times> 'a heap" where
  "Resize T new_size this h =
     (if new_size < vsize this
      then (case destroy_n (ptr_add (GetAddress (data this)) new_size) (vsize this - new_size) h of
              (Ok _, h1) \<Rightarrow> (Ok (), this\<lparr>vsize := new_size\<rparr>, h1)
            | (r, h1) \<Rightarrow> (r, this, h1))
      else (case Reserve T new_size this h of
              (Ok _, this1, h1) \<Rightarrow>
                (case uninitialized_value_construct_n T
                        (ptr_add (GetAddress (data this1)) (vsize this1)) (new_size - vsize this1) h1 of
                   (Ok _, h2) \<Rightarrow> (Ok (), this1\<lparr>vsize := new_size\<rparr>, h2)
                 | (r, h2) \<Rightarrow> (r, this1, h2))
            | other \<Rightarrow> other))"

text \<open>
  \<^verbatim>\<open>PushBack(const T&)\<close>, \<^verbatim>\<open>PushBack(T&&)\<close> and \<^verbatim>\<open>EmplaceBack\<close> are the same text in the
  source but for the constructor arguments and for the statement that adopts the new
  buffer: \<^verbatim>\<open>data_.Swap(new_data)\<close> in the first, \<^verbatim>\<open>data_ = std::move(new_data)\<close> in the other
  two. \<open>emplace_back_with\<close> is that text, with the adopting statement as a parameter; it
  returns the slot of the new element.
\<close>

definition emplace_back_with ::
  "(RawMemory \<Rightarrow> RawMemory \<Rightarrow> RawMemory \<times> RawMemory) \<Rightarrow> 'a elem \<Rightarrow> 'a ctor_args \<Rightarrow> Vector \<Rightarrow> 'a heap
     \<Rightarrow> ptr res \<times> Vector \<times> 'a heap" where
  "emplace_back_with adopt T args this h = incr_size
     (if vsize this = Capacity this
      then (case RawMemory_sized (if vsize this = 0 then 1 else vsize this * 2) h of (new_data, h1) \<Rightarrow>
        (case and_then (RawMemory_plus new_data (vsize this), h1) (\<lambda>p h.
                and_then (placement_new T p args h) (\<lambda>_ h.
                and_then (TransferDataSafely T (GetAddress (data this)) (vsize this) (GetAddress new_data) h) (\<lambda>_ h.
                and_then (destroy_n (GetAddress (data this)) (vsize this) h) (\<lambda>_ h. (Ok p, h))))) of
           (Ok p, h2) \<Rightarrow> (case adopt (data this) new_data of (d, nd) \<Rightarrow>
                           leave_scope nd (Ok p, this\<lparr>data := d\<rparr>, h2))
         | (Throw, h2) \<Rightarrow> leave_scope new_data (Throw, this, h2)
         | (AssertFail, h2) \<Rightarrow> (AssertFail, this, h2)
         | (Undefined, h2) \<Rightarrow> (Undefined, this, h2)))
      else (case and_then (RawMemory_plus (data this) (vsize this), h) (\<lambda>p h.
                   and_then (placement_new T p args h) (\<lambda>_ h. (Ok p, h))) of
              (r, h1) \<Rightarrow> (r, this, h1)))"

definition discard :: "'r res \<times> 's \<Rightarrow> unit res \<times> 's" where
  "discard s = (case s of (Ok _, t) \<Rightarrow> (Ok (), t) | (Throw, t) \<Rightarrow> (Throw, t)
     | (AssertFail, t) \<Rightarrow> (AssertFail, t) | (Undefined, t) \<Rightarrow> (Undefined, t))"

text \<open>\<^verbatim>\<open>void PushBack(const T& value)\<close>\<close>

definition PushBack :: "'a elem \<Rightarrow> 'a \<Rightarrow> Vector \<Rightarrow> 'a heap \<Rightarrow> unit res \<times> Vector \<times> 'a heap" where
  "PushBack T x this h = discard (emplace_back_with RawMemory_Swap T (Lvalue x) this h)"

text \<open>\<^verbatim>\<open>void PushBack(T&& value)\<close>\<close>

definition PushBack_rvalue :: "'a elem \<Rightarrow> 'a \<Rightarrow> Vector \<Rightarrow> 'a heap \<Rightarrow> unit res \<times> Vector \<times> 'a heap" where
  "PushBack_rvalue T x this h = discard (emplace_back_with RawMemory_move_assign T (Rvalue x) this h)"

definition EmplaceBack :: "'a elem \<Rightarrow> 'a ctor_args \<Rightarrow> Vector \<Rightarrow> 'a heap \<Rightarrow> ptr res \<times> Vector \<times> 'a heap" where
  "EmplaceBack T args this h = emplace_back_with RawMemory_move_assign T args this h"

text \<open>\<^verbatim>\<open>PopBack\<close> has no assertion: on an empty vector \<^verbatim>\<open>size_ - 1\<close> wraps around.\<close>

definition PopBack :: "Vector \<Rightarrow> 'a heap \<Rightarrow> unit res \<times> Vector \<times> 'a heap" where
  "PopBack this h =
     (case destroy_at (ptr_add (GetAddress (data this)) (size_t_sub (vsize this) 1)) h of
        (Ok _, h1) \<Rightarrow> (Ok (), this\<lparr>vsize := size_t_sub (vsize this) 1\<rparr>, h1)
      | (r, h1) \<Rightarrow> (r, this, h1))"


text \<open>
  \<^verbatim>\<open>new (end()) T(std::forward<T>(*(end() - 1)))\<close>: the last element is moved into the raw
  slot behind it.
\<close>

definition move_construct_at :: "'a elem \<Rightarrow> ptr \<Rightarrow> ptr \<Rightarrow> 'a heap \<Rightarrow> unit res \<times> 'a heap" where
  "move_construct_at T dst src h = (case slot h src of
       Some (Some x) \<Rightarrow>
         if move_throws T x then (Throw, h)
         else and_then (construct_at MoveConstruct dst x h)
                (\<lambda>_ h'. (Ok (), store src (Some (moved_from T x)) h'))
     | _ \<Rightarrow> (Undefined, h))"

text \<open>
  \<^verbatim>\<open>data_[offset] = T(std::forward<Args>(args)...)\<close>: the temporary is built, the slot is
  taken through \<^verbatim>\<open>RawMemory::operator[]\<close>, and the temporary is move-assigned to it.
\<close>

definition assign_temporary ::
  "'a elem \<Rightarrow> RawMemory \<Rightarrow> nat \<Rightarrow> 'a ctor_args \<Rightarrow> 'a heap \<Rightarrow> unit res \<times> 'a heap" where
  "assign_temporary T d offset args h = (case construct_from T args of
       None \<Rightarrow> (Throw, h)
     | Some (x, ev) \<Rightarrow> and_then (RawMemory_index d offset, h) (\<lambda>p h.
         (case slot h p of
            Some (Some y) \<Rightarrow>
              if move_assign_throws T x then (Throw, h)
              else (Ok (), log (MoveAssign p) (store p (Some x) h))
          | _ \<Rightarrow> (Undefined, h))))"

text \<open>
  \<^verbatim>\<open>Emplace(pos, args...)\<close>. A \<open>pos\<close> that is no iterator of this vector makes
  \<^verbatim>\<open>std::distance\<close> undefined.
\<close>

definition Emplace ::
  "'a elem \<Rightarrow> ptr \<Rightarrow> 'a ctor_args \<Rightarrow> Vector \<Rightarrow> 'a heap \<Rightarrow> ptr res \<times> Vector \<times> 'a heap" where
  "Emplace T pos args this h = (case distance (begin_it this) pos of
       None \<Rightarrow> (Undefined, this, h)
     | Some offset \<Rightarrow>
         if pos = end_it this
         then return_begin_plus offset (discard (EmplaceBack T args this h))
         else return_begin_plus offset (incr_size
           (if vsize this = Capacity this
            then (case RawMemory_sized (if vsize this = 0 then 1 else vsize this * 2) h of (new_data, h1) \<Rightarrow>
              (case and_then (RawMemory_plus new_data offset, h1) (\<lambda>p h.
                      and_then (placement_new T p args h) (\<lambda>_ h.
                      and_then (catch_rethrow
                                  (TransferDataSafely T (begin_it this) offset (GetAddress new_data) h)
                                  (destroy_at (ptr_add (GetAddress new_data) offset))) (\<lambda>_ h.
                      and_then (catch_rethrow
                                  (TransferDataSafely T (ptr_add (begin_it this) offset)
                                     (size_t_sub (vsize this) offset)
                                     (ptr_add (GetAddress new_data) (offset + 1)) h)
                                  (destroy_n (GetAddress new_data) (offset + 1))) (\<lambda>_ h.
                      destroy_n (GetAddress (data this)) (vsize this) h)))) of
                 (Ok _, h2) \<Rightarrow> (case RawMemory_move_assign (data this) new_data of (d, nd) \<Rightarrow>
                                 leave_scope nd (Ok (), this\<lparr>data := d\<rparr>, h2))
               | (Throw, h2) \<Rightarrow> leave_scope new_data (Throw, this, h2)
               | (AssertFail, h2) \<Rightarrow> (AssertFail, this, h2)
               | (Undefined, h2) \<Rightarrow> (Undefined, this, h2)))
            else (case ptr_sub (end_it this) 1 of
                    None \<Rightarrow> (Undefined, this, h)
                  | Some back \<Rightarrow>
                     (case distance (ptr_add (begin_it this) offset) back of
                        None \<Rightarrow> (Undefined, this, h)
                      | Some n \<Rightarrow>
                         (case and_then (move_construct_at T (end_it this) back h) (\<lambda>_ h.
                                 and_then (move_backward T (ptr_add (begin_it this) offset) n
                                             (ptr_add (begin_it this) (offset + 1)) h) (\<lambda>_ h.
                                 assign_temporary T (data this) offset args h)) of
                            (r, h1) \<Rightarrow> (r, this, h1)))))))"

text \<open>\<^verbatim>\<open>Insert(pos, const T&)\<close> and \<^verbatim>\<open>Insert(pos, T&&)\<close>\<close>

definition Insert :: "'a elem \<Rightarrow> ptr \<Rightarrow> 'a \<Rightarrow> Vector \<Rightarrow> 'a heap \<Rightarrow> ptr res \<times> Vector \<times> 'a heap" where
  "Insert T pos x this h = Emplace T pos (Lvalue x) this h"


definition Erase :: "'a elem \<Rightarrow> ptr \<Rightarrow> Vector \<Rightarrow> 'a heap \<Rightarrow> ptr res \<times> Vector \<times> 'a heap" where
  "Erase T pos this h = (case distance (begin_it this) pos of
       None \<Rightarrow> (Undefined, this, h)
     | Some offset \<Rightarrow>
        (case distance (ptr_add (ptr_add (begin_it this) offset) 1) (end_it this) of
           None \<Rightarrow> (Undefined, this, h)
         | Some n \<Rightarrow>
            (case ptr_sub (end_it this) 1 of
               None \<Rightarrow> (Undefined, this, h)
             | Some back \<Rightarrow>
                (case and_then (move_forward T (ptr_add (ptr_add (begin_it this) offset) 1) n
                                  (ptr_add (begin_it this) offset) h)
                        (\<lambda>_. destroy_at back) of
                   (Ok _, h1) \<Rightarrow> (Ok pos, this\<lparr>vsize := size_t_sub (vsize this) 1\<rparr>, h1)
                 | (Throw, h1) \<Rightarrow> (Throw, this, h1)
                 | (AssertFail, h1) \<Rightarrow> (AssertFail, this, h1)
                 | (Undefined, h1) \<Rightarrow> (Undefined, this, h1)))))"

text \<open>
  The body of \<^verbatim>\<open>operator=(const Vector& rhs)\<close> behind the test \<^verbatim>\<open>this == &rhs\<close>, for two
  different objects; \<open>rhs\<close> is \<^verbatim>\<open>const\<close> and is not returned.
\<close>

definition Vector_copy_assign :: "'a elem \<Rightarrow> Vector \<Rightarrow> Vector \<Rightarrow> 'a heap \<Rightarrow> unit res \<times> Vector \<times> 'a heap" where
  "Vector_copy_assign T this rhs h =
     (if vsize rhs > capacity (data this)
      then (case Vector_copy_ctor T rhs h of
              (Ok rhs_copy, h1) \<Rightarrow> (case Vector_Swap this rhs_copy of (this', rhs_copy') \<Rightarrow>
                 (case Vector_dtor rhs_copy' h1 of (r, h2) \<Rightarrow> (r, this', h2)))
            | (Throw, h1) \<Rightarrow> (Throw, this, h1)
            | (AssertFail, h1) \<Rightarrow> (AssertFail, this, h1)
            | (Undefined, h1) \<Rightarrow> (Undefined, this, h1))
      else (case
              (if vsize rhs < vsize this
               then and_then (copy_n T (GetAddress (data rhs)) (vsize rhs) (GetAddress (data this)) h)
                      (\<lambda>_. destroy_n (ptr_add (GetAddress (data this)) (vsize rhs)) (vsize this - vsize rhs))
               else and_then (copy_n T (GetAddress (data rhs)) (vsize this) (GetAddress (data this)) h)
                      (\<lambda>_. uninitialized_copy_n T (ptr_add (GetAddress (data rhs)) (vsize this))
                              (vsize rhs - vsize this) (ptr_add (GetAddress (data this)) (vsize this)))) of
              (Ok _, h1) \<Rightarrow> (Ok (), this\<lparr>vsize := vsize rhs\<rparr>, h1)
            | (r, h1) \<Rightarrow> (r, this, h1)))"

section \<open>Vector objects and their identity\<close>

text \<open>
  The two assignment operators take another vector by reference, which may be the
  vector itself. Objects are therefore held in a store, indexed by their identity.
\<close>

type_synonym vref = nat
type_synonym 'a world = "(vref \<Rightarrow> Vector) \<times> 'a heap"

text \<open>\<^verbatim>\<open>Vector& operator=(const Vector& rhs)\<close>\<close>

definition assign_copy :: "'a elem \<Rightarrow> vref \<Rightarrow> vref \<Rightarrow> 'a world \<Rightarrow> unit res \<times> 'a world" where
  "assign_copy T this rhs w = (case w of (objs, h) \<Rightarrow>
     if this = rhs then (Ok (), objs, h)
     else (case Vector_copy_assign T (objs this) (objs rhs) h of
             (r, v, h') \<Rightarrow> (r, objs(this := v), h')))"

text \<open>
  \<^verbatim>\<open>Vector& operator=(Vector&& rhs) noexcept\<close>, statement by statement on the store:
  each \<^verbatim>\<open>std::exchange\<close> reads the field of \<open>rhs\<close>, resets it, and the old value is then
  written to the field of \<open>this\<close>.
\<close>

definition assign_move :: "vref \<Rightarrow> vref \<Rightarrow> 'a world \<Rightarrow> unit res \<times> 'a world" where
  "assign_move this rhs w = (case w of (objs, h) \<Rightarrow>
     (let b = buffer (data (objs rhs));
          o1 = objs(rhs := (objs rhs)\<lparr>data := (data (objs rhs))\<lparr>buffer := None\<rparr>\<rparr>);
          o2 = o1(this := (o1 this)\<lparr>data := (data (o1 this))\<lparr>buffer := b\<rparr>\<rparr>);
          c = capacity (data (o2 rhs));
          o3 = o2(rhs := (o2 rhs)\<lparr>data := (data (o2 rhs))\<lparr>capacity := 0\<rparr>\<rparr>);
          o4 = o3(this := (o3 this)\<lparr>data := (data (o3 this))\<lparr>capacity := c\<rparr>\<rparr>);
          n = vsize (o4 rhs);
          o5 = o4(rhs := (o4 rhs)\<lparr>vsize := 0\<rparr>);
          o6 = o5(this := (o5 this)\<lparr>vsize := n\<rparr>)
      in (Ok (), o6, h)))"

text \<open>\<^verbatim>\<open>Vector(Vector&& other)\<close> into a new object \<open>this\<close>.\<close>

definition construct_move :: "vref \<Rightarrow> vref \<Rightarrow> 'a world \<Rightarrow> unit res \<times> 'a world" where
  "construct_move this other w = (case w of (objs, h) \<Rightarrow>
     (case Vector_move_ctor (objs other) of (v, ov) \<Rightarrow> (Ok (), objs(other := ov, this := v), h)))"

section \<open>The abstract view of a vector\<close>

text \<open>The elements of a vector, and the invariant of its representation.\<close>

definition elems :: "'a heap \<Rightarrow> Vector \<Rightarrow> 'a list" where
  "elems h v = (case buffer (data v) of None \<Rightarrow> []
     | Some a \<Rightarrow> (case blocks h a of None \<Rightarrow> [] | Some b \<Rightarrow> map the (take (vsize v) b)))"

definition vec_ok :: "'a heap \<Rightarrow> Vector \<Rightarrow> bool" where
  "vec_ok h v = (vsize v \<le> capacity (data v) \<and>
     (case buffer (data v) of None \<Rightarrow> capacity (data v) = 0
      | Some a \<Rightarrow> capacity (data v) \<noteq> 0 \<and>
          (case blocks h a of None \<Rightarrow> False
           | Some b \<Rightarrow> length b = capacity (data v) \<and>
               list_all (\<lambda>x. x \<noteq> None) (take (vsize v) b) \<and>
               list_all (\<lambda>x. x = None) (drop (vsize v) b))))"

definition empty_heap :: "'a heap" where
  "empty_heap = \<lparr>blocks = (\<lambda>_. None), next_addr = 0, released = [], trace = []\<rparr>"

text \<open>A heap with one block at address 0, and the next free address 1.\<close>

definition heap_of :: "'a option list \<Rightarrow> 'a heap" where
  "heap_of b = \<lparr>blocks = (\<lambda>_. None)(0 \<mapsto> b), next_addr = 1, released = [], trace = []\<rparr>"

text \<open>The vector of \<open>n\<close> elements in the block at address 0, of \<open>c\<close> slots.\<close>

definition vec_at0 :: "nat \<Rightarrow> nat \<Rightarrow> Vector" where
  "vec_at0 n c = \<lparr>data = \<lparr>buffer = Some 0, capacity = c\<rparr>, vsize = n\<rparr>"

text \<open>The slots \<open>i, ..., i + n - 1\<close> of the block at \<open>d\<close>.\<close>

primrec slots :: "addr \<Rightarrow> nat \<Rightarrow> nat \<Rightarrow> ptr list" where
  "slots d i 0 = []"
| "slots d i (Suc n) = (Some d, i) # slots d (Suc i) n"

text \<open>A heap with one block replaced and events appended to the trace.\<close>

definition upd_block :: "addr \<Rightarrow> 'a option list \<Rightarrow> event list \<Rightarrow> 'a heap \<Rightarrow> 'a heap" where
  "upd_block d b es h = h\<lparr>blocks := (blocks h)(d \<mapsto> b), trace := trace h @ es\<rparr>"

text \<open>
  An element type declared \<^verbatim>\<open>noexcept\<close>-movable has a move constructor that does not throw
  (a throw from it would end the program in \<^verbatim>\<open>std::terminate\<close>).
\<close>

definition elem_ok :: "'a elem \<Rightarrow> bool" where
  "elem_ok T = (nothrow_move_constructible T \<longrightarrow> (\<forall>x. \<not> move_throws T x))"

text \<open>
  Two element types over \<open>int\<close>: a copyable one whose copy and move constructors throw
  on the value \<open>bad\<close>, and a move-only one whose move constructor throws on \<open>bad\<close>.
  A moved-from element holds 0.
\<close>

definition T_copy_throws_on :: "int \<Rightarrow> int elem" where
  "T_copy_throws_on bad = \<lparr>value_init = Some 0, copy_throws = (\<lambda>x. x = bad), move_throws = (\<lambda>x. x = bad),
     copy_assign_throws = (\<lambda>_. False), move_assign_throws = (\<lambda>_. False), moved_from = (\<lambda>_. 0),
     nothrow_move_constructible = False, copy_constructible = True\<rparr>"

definition T_move_only :: "int \<Rightarrow> int elem" where
  "T_move_only bad = \<lparr>value_init = Some 0, copy_throws = (\<lambda>_. False), move_throws = (\<lambda>x. x = bad),
     copy_assign_throws = (\<lambda>_. False), move_assign_throws = (\<lambda>_. False), moved_from = (\<lambda>_. 0),
     nothrow_move_constructible = False, copy_constructible = False\<rparr>"

text \<open>The full vector \<open>[1, 2]\<close> in a block of two slots.\<close>

definition heap12 :: "int heap" where
  "heap12 = heap_of [Some 1, Some 2]"

definition vec12 :: Vector where
  "vec12 = vec_at0 2 2"

text \<open>\<open>int\<close> as an element type: nothing throws and a moved-from element keeps its value.\<close>

definition T_int :: "int elem" where
  "T_int = \<lparr>value_init = Some 0, copy_throws = (\<lambda>_. False), move_throws = (\<lambda>_. False),
     copy_assign_throws = (\<lambda>_. False), move_assign_throws = (\<lambda>_. False), moved_from = (\<lambda>x. x),
     nothrow_move_constructible = True, copy_constructible = True\<rparr>"

text \<open>The next call of a test program, on the vector and heap the previous call left.\<close>

definition then_on :: "'r res \<times> Vector \<times> 'a heap \<Rightarrow> (Vector \<Rightarrow> 'a heap \<Rightarrow> 'q res \<times> Vector \<times> 'a heap)
    \<Rightarrow> 'q res \<times> Vector \<times> 'a heap" where
  "then_on s f = (case s of (r, v, h) \<Rightarrow> f v h)"

text \<open>
  \<^verbatim>\<open>{ Vector<int> v; v.EmplaceBack(1); v.EmplaceBack(2); }\<close>, before and after the
  destructor of \<^verbatim>\<open>v\<close>, and the same program with \<^verbatim>\<open>PushBack(const T&)\<close>.
\<close>

definition emplace_twice :: "ptr res \<times> Vector \<times> int heap" where
  "emplace_twice = then_on (EmplaceBack T_int (Args (Some 1)) Vector_default empty_heap)
                     (EmplaceBack T_int (Args (Some 2)))"

definition emplace_twice_destroyed :: "unit res \<times> int heap" where
  "emplace_twice_destroyed = Vector_dtor (fst (snd emplace_twice)) (snd (snd emplace_twice))"

definition push_twice_destroyed :: "unit res \<times> int heap" where
  "push_twice_destroyed =
     (case then_on (PushBack T_int 1 Vector_default empty_heap) (PushBack T_int 2) of
        (r, v, h) \<Rightarrow> Vector_dtor v h)"

text \<open>
  \<^verbatim>\<open>Vector<T> v; v.Reserve(4); v.PushBack(1); v.PushBack(2);\<close> and then
  \<^verbatim>\<open>v.Insert(v.begin(), 9)\<close>, for an element type whose copy constructor throws on 9.
\<close>

definition reserved12 :: "unit res \<times> Vector \<times> int heap" where
  "reserved12 = then_on (then_on (Reserve (T_copy_throws_on 9) 4 Vector_default empty_heap)
      (PushBack (T_copy_throws_on 9) 1)) (PushBack (T_copy_throws_on 9) 2)"

definition insert_throws :: "ptr res \<times> Vector \<times> int heap" where
  "insert_throws = then_on reserved12 (\<lambda>v. Insert (T_copy_throws_on 9) (begin_it v) 9 v)"

text \<open>
  The vector after a growing insertion that returns normally: its buffer is the block
  allocated at the next free address, its capacity \<open>max 1 (2 * capacity)\<close>.
\<close>

definition grown :: "'a heap \<Rightarrow> Vector \<Rightarrow> Vector" where
  "grown h this = \<lparr>data = \<lparr>buffer = Some (next_addr h), capacity = max 1 (2 * Capacity this)\<rparr>,
                   vsize = vsize this + 1\<rparr>"


text \<open>
  What a call has done, read off the trace: the heap \<open>h'\<close> continues \<open>h\<close> when the trace of
  \<open>h\<close> is the beginning of the trace of \<open>h'\<close>; the new events are those behind it; and no
  allocation happened between the two when none of the new events is one.
\<close>

definition continues :: "'a heap \<Rightarrow> 'a heap \<Rightarrow> bool" where
  "continues h h' = (take (length (trace h)) (trace h') = trace h)"

definition new_events :: "'a heap \<Rightarrow> 'a heap \<Rightarrow> event list" where
  "new_events h h' = drop (length (trace h)) (trace h')"

fun is_Allocate :: "event \<Rightarrow> bool" where
  "is_Allocate (Allocate a n) = True"
| "is_Allocate _ = False"

definition no_alloc :: "'a heap \<Rightarrow> 'a heap \<Rightarrow> bool" where
  "no_alloc h h' = (continues h h' \<and> filter is_Allocate (new_events h h') = [])"


text \<open>The full vector \<open>[1, 2, 3]\<close> in a block of three slots.\<close>

definition heap123 :: "int heap" where
  "heap123 = heap_of [Some 1, Some 2, Some 3]"

definition vec123 :: Vector where
  "vec123 = vec_at0 3 3"

text \<open>The full vector \<open>[1, 2, 3, 4]\<close> in a block of four slots.\<close>

definition heap1234 :: "int heap" where
  "heap1234 = heap_of [Some 1, Some 2, Some 3, Some 4]"

definition vec1234 :: Vector where
  "vec1234 = vec_at0 4 4"

text \<open>\<^verbatim>\<open>v.Insert(v.begin() + p, 9)\<close> on that vector, for an element type \<open>T\<close>.\<close>

definition insert_at :: "nat \<Rightarrow> int elem \<Rightarrow> ptr res \<times> Vector \<times> int heap" where
  "insert_at p T = Emplace T (ptr_add (begin_it vec1234) p) (Lvalue 9) vec1234 heap1234"

text \<open>
  \<^verbatim>\<open>v.Insert(v.begin() + 1, std::move(x))\<close> with \<open>x = 9\<close> on the full vector \<open>[1, 2]\<close>, for
  the move-only element type.
\<close>

definition insert_mid_rvalue :: "int elem \<Rightarrow> ptr res \<times> Vector \<times> int heap" where
  "insert_mid_rvalue T = Emplace T (ptr_add (begin_it vec12) 1) (Rvalue 9) vec12 heap12"

text \<open>
  After a copy assignment: the target holds the elements \<open>ys\<close>, its length is theirs, and
  the source still holds them; both vectors satisfy the invariant.
\<close>

definition holds_copy :: "'a heap \<Rightarrow> Vector \<Rightarrow> Vector \<Rightarrow> 'a list \<Rightarrow> bool" where
  "holds_copy h this rhs ys =
     (elems h this = ys \<and> vsize this = length ys \<and> vec_ok h this \<and> elems h rhs = ys \<and> vec_ok h rhs)"

text \<open>
  Three vectors in one heap: object 0 is \<open>[1]\<close> with capacity 2, object 1 is \<open>[7, 8, 9]\<close>
  with capacity 3, object 2 is \<open>[5, 6]\<close> with capacity 2.
\<close>

definition three_heap :: "int heap" where
  "three_heap = \<lparr>blocks = (\<lambda>_. None)(0 \<mapsto> [Some 1, None], 1 \<mapsto> [Some 7, Some 8, Some 9],
                              2 \<mapsto> [Some 5, Some 6]),
                  next_addr = 3, released = [], trace = []\<rparr>"

definition three_objs :: "vref \<Rightarrow> Vector" where
  "three_objs = (\<lambda>_. Vector_default)
     (0 := \<lparr>data = \<lparr>buffer = Some 0, capacity = 2\<rparr>, vsize = 1\<rparr>,
      1 := \<lparr>data = \<lparr>buffer = Some 1, capacity = 3\<rparr>, vsize = 3\<rparr>,
      2 := \<lparr>data = \<lparr>buffer = Some 2, capacity = 2\<rparr>, vsize = 2\<rparr>)"

text \<open>\<^verbatim>\<open>v_i = v_j\<close> on these vectors.\<close>

definition assign_three :: "int elem \<Rightarrow> vref \<Rightarrow> vref \<Rightarrow> unit res \<times> (vref \<Rightarrow> Vector) \<times> int heap" where
  "assign_three T i j = assign_copy T i j (three_objs, three_heap)"



section \<open>Properties\<close>

subsection \<open>Records and the invariant\<close>

lemma Vector_overwrite: "(v::Vector)\<lparr>data := d, vsize := n\<rparr> = \<lparr>data = d, vsize = n\<rparr>"
  by simp

lemma RawMemory_overwrite: "(r::RawMemory)\<lparr>buffer := b, capacity := c\<rparr> = \<lparr>buffer = b, capacity = c\<rparr>"
  by simp

lemma all_Some_map_the: "list_all (\<lambda>x. x \<noteq> None) xs \<Longrightarrow> map Some (map the xs) = xs"
  by (induction xs) auto

lemma all_None_replicate: "list_all (\<lambda>x. x = None) xs \<Longrightarrow> xs = replicate (length xs) None"
  by (induction xs) auto

lemma vec_ok_block:
  assumes "vec_ok h v" "buffer (data v) = Some a"
  shows "blocks h a = Some (map Some (elems h v) @ replicate (capacity (data v) - vsize v) None)"
    and "length (elems h v) = vsize v" and "capacity (data v) \<noteq> 0"
proof -
  from assms obtain b where b: "blocks h a = Some b" "length b = capacity (data v)"
    "list_all (\<lambda>x. x \<noteq> None) (take (vsize v) b)" "list_all (\<lambda>x. x = None) (drop (vsize v) b)"
    and le: "vsize v \<le> capacity (data v)" and ne: "capacity (data v) \<noteq> 0"
    by (auto simp: vec_ok_def split: option.splits)
  have e: "elems h v = map the (take (vsize v) b)" using assms b by (simp add: elems_def)
  have "b = take (vsize v) b @ drop (vsize v) b" by simp
  also have "take (vsize v) b = map Some (elems h v)" using all_Some_map_the[OF b(3)] e by simp
  also have "drop (vsize v) b = replicate (capacity (data v) - vsize v) None"
    using all_None_replicate[OF b(4)] b(2) by simp
  finally show "blocks h a = Some (map Some (elems h v) @ replicate (capacity (data v) - vsize v) None)"
    using b(1) by simp
  show "length (elems h v) = vsize v" using e b(2) le by simp
  show "capacity (data v) \<noteq> 0" by (rule ne)
qed

lemma vec_ok_null:
  assumes "vec_ok h v" "buffer (data v) = None"
  shows "capacity (data v) = 0" "vsize v = 0" "elems h v = []"
  using assms by (auto simp: vec_ok_def elems_def)

subsection \<open>Self-assignment\<close>

text \<open>
  Claim C10. Copy-assigning a vector to itself changes nothing: the store of vector
  objects and the heap, so the length, the capacity and every element, are as before,
  and the call returns normally.
\<close>

theorem self_copy_assign_noop: "assign_copy T v v (objs, h) = (Ok (), objs, h)"
  by (simp add: assign_copy_def)

subsection \<open>Moving a vector\<close>

text \<open>
  Claim C7. Move construction of \<open>this\<close> from \<open>other\<close>, and likewise move assignment of
  \<open>other\<close> to a different vector \<open>this\<close>, returns normally and leaves the heap as it was
  (no element is constructed or destroyed); afterwards \<open>this\<close> has the buffer, the
  elements in their order, the length and the capacity that \<open>other\<close> had, and \<open>other\<close> has
  length 0, capacity 0 and no buffer.
\<close>

theorem move_transfers_ownership:
  assumes "this \<noteq> other"
  shows "\<exists>objs'. construct_move this other (objs, h) = (Ok (), objs', h)
           \<and> assign_move this other (objs, h) = (Ok (), objs', h)
           \<and> elems h (objs' this) = elems h (objs other)
           \<and> Size (objs' this) = Size (objs other)
           \<and> Capacity (objs' this) = Capacity (objs other)
           \<and> data (objs' this) = data (objs other)
           \<and> Size (objs' other) = 0 \<and> Capacity (objs' other) = 0 \<and> buffer (data (objs' other)) = None"
proof -
  define v where "v = \<lparr>data = \<lparr>buffer = buffer (data (objs other)), capacity = capacity (data (objs other))\<rparr>,
                       vsize = vsize (objs other)\<rparr>"
  define ov where "ov = \<lparr>data = \<lparr>buffer = None, capacity = 0\<rparr>, vsize = 0\<rparr>"
  define objs' where "objs' = objs(other := ov, this := v)"
  have c: "construct_move this other (objs, h) = (Ok (), objs', h)"
    by (simp add: construct_move_def Vector_move_ctor_def RawMemory_move_ctor_def objs'_def v_def ov_def
        Vector_overwrite RawMemory_overwrite)
  have a: "assign_move this other (objs, h) = (Ok (), objs', h)"
    using assms
    by (auto simp add: assign_move_def Let_def objs'_def v_def ov_def fun_eq_iff
        Vector_overwrite RawMemory_overwrite)
  have t: "objs' this = v" and o: "objs' other = ov" using assms by (simp_all add: objs'_def)
  have d: "data v = data (objs other)" by (simp add: v_def)
  have e: "elems h v = elems h (objs other)" by (simp add: elems_def v_def split: option.splits)
  show ?thesis
    using c a e d by (intro exI[of _ objs']) (simp add: t o Size_def Capacity_def v_def ov_def)
qed

theorem move_transfers_ownership_witness:
  "(1::vref) \<noteq> 0 \<and> (\<exists>objs'.
      construct_move 1 0 ((\<lambda>_. Vector_default)(0 := vec_at0 1 2), heap_of [Some (7::int), None])
        = (Ok (), objs', heap_of [Some 7, None])
    \<and> assign_move 1 0 ((\<lambda>_. Vector_default)(0 := vec_at0 1 2), heap_of [Some (7::int), None])
        = (Ok (), objs', heap_of [Some 7, None])
    \<and> elems (heap_of [Some (7::int), None]) (objs' 1) = [7]
    \<and> Size (objs' 1) = 1 \<and> Capacity (objs' 1) = 2 \<and> Size (objs' 0) = 0 \<and> Capacity (objs' 0) = 0)"
  using move_transfers_ownership [of 1 0 "(\<lambda>_. Vector_default)(0 := vec_at0 1 2)"
       "heap_of [Some (7::int), None]"]
  by (auto simp: elems_def heap_of_def vec_at0_def Size_def Capacity_def)

subsection \<open>The algorithms on blocks\<close>

lemma slots_append: "slots d i (m + n) = slots d i m @ slots d (i + m) n"
  by (induction m arbitrary: i) auto

lemma length_slots [simp]: "length (slots d i n) = n"
  by (induction n arbitrary: i) auto

lemma upd_block_simps [simp]:
  "blocks (upd_block d b es h) = (blocks h)(d \<mapsto> b)"
  "trace (upd_block d b es h) = trace h @ es"
  "next_addr (upd_block d b es h) = next_addr h"
  "released (upd_block d b es h) = released h"
  by (simp_all add: upd_block_def)

lemma upd_block_twice [simp]:
  "upd_block d b2 es2 (upd_block d b1 es1 h) = upd_block d b2 (es1 @ es2) h"
  by (simp add: upd_block_def)

lemma upd_block_same: "blocks h d = Some b \<Longrightarrow> upd_block d b [] h = h"
  by (simp add: upd_block_def map_upd_triv)

lemma slot_block:
  "blocks h d = Some (pre @ y # post) \<Longrightarrow> slot h (Some d, length pre) = Some y"
  by (simp add: slot_def)

lemma construct_at_block:
  assumes "blocks h d = Some (pre @ y # post)"
  shows "construct_at ev (Some d, length pre) x h =
    (Ok (), upd_block d (pre @ Some x # post) [ev (Some d, length pre)] h)"
  using assms by (simp add: construct_at_def slot_def store_def log_def upd_block_def)

lemma destroy_at_block:
  assumes "blocks h d = Some (pre @ Some x # post)"
  shows "destroy_at (Some d, length pre) h =
    (Ok (), upd_block d (pre @ None # post) [Destroy (Some d, length pre)] h)"
  using assms by (simp add: destroy_at_def slot_def store_def log_def upd_block_def)

lemma destroy_n_block:
  assumes "blocks h d = Some (pre @ map Some xs @ post)"
  shows "destroy_n (Some d, length pre) (length xs) h =
    (Ok (), upd_block d (pre @ replicate (length xs) None @ post)
              (map Destroy (slots d (length pre) (length xs))) h)"
  using assms
proof (induction xs arbitrary: pre h)
  case Nil
  then show ?case by (simp add: upd_block_same)
next
  case (Cons x xs)
  let ?h1 = "upd_block d (pre @ None # map Some xs @ post) [Destroy (Some d, length pre)] h"
  have d1: "destroy_at (Some d, length pre) h = (Ok (), ?h1)"
    using destroy_at_block[of h d pre x "map Some xs @ post"] Cons.prems by simp
  have b1: "blocks ?h1 d = Some ((pre @ [None]) @ map Some xs @ post)" by simp
  show ?case
    using Cons.IH[OF b1] by (simp add: d1 ptr_add_def)
qed

lemma uninitialized_n_0 [simp]:
  "uninitialized_copy_n T src 0 dst h = (Ok (), h)"
  "uninitialized_move_n T src 0 dst h = (Ok (), h)"
  "uninitialized_value_construct_n T dst 0 h = (Ok (), h)"
  by (simp_all add: uninitialized_copy_n_def uninitialized_move_n_def uninitialized_value_construct_n_def)

lemma copy_construct_loop_block:
  assumes "blocks h s = Some (spre @ map Some xs @ spost)"
    and "blocks h d = Some (dpre @ map Some ds @ replicate (length xs) None @ dpost)"
    and "s \<noteq> d"
  shows "copy_construct_loop T (Some s, length spre) (length xs) (Some d, length dpre) (length ds) h =
    (if \<forall>x\<in>set xs. \<not> copy_throws T x
     then (Ok (), upd_block d (dpre @ map Some ds @ map Some xs @ dpost)
                    (map CopyConstruct (slots d (length dpre + length ds) (length xs))) h)
     else (Throw, upd_block d (dpre @ replicate (length ds) None @ replicate (length xs) None @ dpost)
                    (map CopyConstruct (slots d (length dpre + length ds)
                                          (length (takeWhile (\<lambda>x. \<not> copy_throws T x) xs)))
                     @ map Destroy (slots d (length dpre)
                                      (length ds + length (takeWhile (\<lambda>x. \<not> copy_throws T x) xs)))) h))"
  using assms
proof (induction xs arbitrary: spre ds h)
  case Nil
  then show ?case by (simp add: upd_block_same)
next
  case (Cons x xs)
  have sl: "slot h (Some s, length spre) = Some (Some x)"
    using slot_block[of h s spre "Some x" "map Some xs @ spost"] Cons.prems(1) by simp
  show ?case
  proof (cases "copy_throws T x")
    case True
    have dn: "destroy_n (Some d, length dpre) (length ds) h =
        (Ok (), upd_block d (dpre @ replicate (length ds) None @ replicate (Suc (length xs)) None @ dpost)
                  (map Destroy (slots d (length dpre) (length ds))) h)"
      using destroy_n_block[of h d dpre ds "replicate (Suc (length xs)) None @ dpost"] Cons.prems(2)
      by simp
    show ?thesis using True by (simp add: sl dn)
  next
    case False
    let ?h1 = "upd_block d (dpre @ map Some ds @ Some x # replicate (length xs) None @ dpost)
                 [CopyConstruct (Some d, length dpre + length ds)] h"
    have c1: "construct_at CopyConstruct (Some d, length dpre + length ds) x h = (Ok (), ?h1)"
      using construct_at_block[of h d "dpre @ map Some ds" None "replicate (length xs) None @ dpost"]
        Cons.prems(2) by simp
    have bs: "blocks ?h1 s = Some ((spre @ [Some x]) @ map Some xs @ spost)"
      using Cons.prems by simp
    have bd: "blocks ?h1 d = Some (dpre @ map Some (ds @ [x]) @ replicate (length xs) None @ dpost)"
      by simp
    note ih = Cons.IH[OF bs bd Cons.prems(3)]
    show ?thesis
      using ih False by (simp add: sl c1 ptr_add_def replicate_app_Cons_same)
  qed
qed

lemma uninitialized_copy_n_block:
  assumes "blocks h s = Some (spre @ map Some xs @ spost)"
    and "blocks h d = Some (dpre @ replicate (length xs) None @ dpost)"
    and "s \<noteq> d"
  shows "uninitialized_copy_n T (Some s, length spre) (length xs) (Some d, length dpre) h =
    (if \<forall>x\<in>set xs. \<not> copy_throws T x
     then (Ok (), upd_block d (dpre @ map Some xs @ dpost)
                    (map CopyConstruct (slots d (length dpre) (length xs))) h)
     else (Throw, upd_block d (dpre @ replicate (length xs) None @ dpost)
                    (map CopyConstruct (slots d (length dpre) (length (takeWhile (\<lambda>x. \<not> copy_throws T x) xs)))
                     @ map Destroy (slots d (length dpre) (length (takeWhile (\<lambda>x. \<not> copy_throws T x) xs)))) h))"
  using copy_construct_loop_block[of h s spre xs spost d dpre "[]" dpost T] assms
  by (simp add: uninitialized_copy_n_def)


lemma upd_block_commute:
  "s \<noteq> d \<Longrightarrow> upd_block s sb [] (upd_block d db es h) = upd_block d db es (upd_block s sb [] h)"
  by (simp add: upd_block_def fun_upd_twist)

lemma store_block:
  assumes "blocks h s = Some (pre @ y # post)"
  shows "store (Some s, length pre) x h = upd_block s (pre @ x # post) [] h"
  using assms by (simp add: store_def upd_block_def)

lemma move_construct_loop_block:
  assumes "blocks h s = Some (spre @ map Some xs @ spost)"
    and "blocks h d = Some (dpre @ map Some ds @ replicate (length xs) None @ dpost)"
    and "s \<noteq> d"
  shows "move_construct_loop T (Some s, length spre) (length xs) (Some d, length dpre) (length ds) h =
    (if \<forall>x\<in>set xs. \<not> move_throws T x
     then (Ok (), upd_block d (dpre @ map Some ds @ map Some xs @ dpost)
                    (map MoveConstruct (slots d (length dpre + length ds) (length xs)))
                    (upd_block s (spre @ map (\<lambda>x. Some (moved_from T x)) xs @ spost) [] h))
     else (Throw, upd_block d (dpre @ replicate (length ds) None @ replicate (length xs) None @ dpost)
                    (map MoveConstruct (slots d (length dpre + length ds)
                                          (length (takeWhile (\<lambda>x. \<not> move_throws T x) xs)))
                     @ map Destroy (slots d (length dpre)
                                      (length ds + length (takeWhile (\<lambda>x. \<not> move_throws T x) xs))))
                    (upd_block s (spre @ map (\<lambda>x. Some (moved_from T x)) (takeWhile (\<lambda>x. \<not> move_throws T x) xs)
                                    @ map Some (dropWhile (\<lambda>x. \<not> move_throws T x) xs) @ spost) [] h)))"
  using assms
proof (induction xs arbitrary: spre ds h)
  case Nil
  then show ?case by (simp add: upd_block_same)
next
  case (Cons x xs)
  have sl: "slot h (Some s, length spre) = Some (Some x)"
    using slot_block[of h s spre "Some x" "map Some xs @ spost"] Cons.prems(1) by simp
  show ?case
  proof (cases "move_throws T x")
    case True
    have dn: "destroy_n (Some d, length dpre) (length ds) h =
        (Ok (), upd_block d (dpre @ replicate (length ds) None @ replicate (Suc (length xs)) None @ dpost)
                  (map Destroy (slots d (length dpre) (length ds))) h)"
      using destroy_n_block[of h d dpre ds "replicate (Suc (length xs)) None @ dpost"] Cons.prems(2)
      by simp
    have same: "upd_block s (spre @ Some x # map Some xs @ spost) [] h = h"
      using Cons.prems(1) by (intro upd_block_same) simp
    show ?thesis using True by (simp add: sl dn same)
  next
    case False
    let ?h1 = "upd_block d (dpre @ map Some ds @ Some x # replicate (length xs) None @ dpost)
                 [MoveConstruct (Some d, length dpre + length ds)] h"
    have c1: "construct_at MoveConstruct (Some d, length dpre + length ds) x h = (Ok (), ?h1)"
      using construct_at_block[of h d "dpre @ map Some ds" None "replicate (length xs) None @ dpost"]
        Cons.prems(2) by simp
    let ?h2 = "upd_block s (spre @ Some (moved_from T x) # map Some xs @ spost) [] ?h1"
    have st: "store (Some s, length spre) (Some (moved_from T x)) ?h1 = ?h2"
      using Cons.prems(1,3) by (intro store_block) simp
    have bs: "blocks ?h2 s = Some ((spre @ [Some (moved_from T x)]) @ map Some xs @ spost)"
      by simp
    have bd: "blocks ?h2 d = Some (dpre @ map Some (ds @ [x]) @ replicate (length xs) None @ dpost)"
      using Cons.prems(3) by simp
    note ih = Cons.IH[OF bs bd Cons.prems(3)]
    show ?thesis
      using ih False Cons.prems(3)
      by (simp add: sl c1 st ptr_add_def replicate_app_Cons_same upd_block_commute)
  qed
qed

lemma uninitialized_move_n_total:
  assumes "blocks h s = Some (spre @ map Some xs @ spost)"
    and "blocks h d = Some (dpre @ replicate (length xs) None @ dpost)"
    and "s \<noteq> d"
  shows "uninitialized_move_n T (Some s, length spre) (length xs) (Some d, length dpre) h =
    (if \<forall>x\<in>set xs. \<not> move_throws T x
     then (Ok (), upd_block d (dpre @ map Some xs @ dpost)
                    (map MoveConstruct (slots d (length dpre) (length xs)))
                    (upd_block s (spre @ map (\<lambda>x. Some (moved_from T x)) xs @ spost) [] h))
     else (Throw, upd_block d (dpre @ replicate (length xs) None @ dpost)
                    (map MoveConstruct (slots d (length dpre) (length (takeWhile (\<lambda>x. \<not> move_throws T x) xs)))
                     @ map Destroy (slots d (length dpre) (length (takeWhile (\<lambda>x. \<not> move_throws T x) xs))))
                    (upd_block s (spre @ map (\<lambda>x. Some (moved_from T x)) (takeWhile (\<lambda>x. \<not> move_throws T x) xs)
                                    @ map Some (dropWhile (\<lambda>x. \<not> move_throws T x) xs) @ spost) [] h)))"
  using move_construct_loop_block[of h s spre xs spost d dpre "[]" dpost T] assms
  by (simp add: uninitialized_move_n_def)

lemma uninitialized_move_n_block:
  assumes "blocks h s = Some (spre @ map Some xs @ spost)"
    and "blocks h d = Some (dpre @ replicate (length xs) None @ dpost)"
    and "s \<noteq> d" and "\<forall>x\<in>set xs. \<not> move_throws T x"
  shows "uninitialized_move_n T (Some s, length spre) (length xs) (Some d, length dpre) h =
    (Ok (), upd_block d (dpre @ map Some xs @ dpost)
              (map MoveConstruct (slots d (length dpre) (length xs)))
              (upd_block s (spre @ map (\<lambda>x. Some (moved_from T x)) xs @ spost) [] h))"
  using uninitialized_move_n_total[OF assms(1,2,3), of T] assms(4) by simp

lemma TransferDataSafely_block:
  assumes "blocks h s = Some (spre @ map Some xs @ spost)"
    and "blocks h d = Some (dpre @ replicate (length xs) None @ dpost)"
    and "s \<noteq> d" and "elem_ok T" and "copy_constructible T \<or> nothrow_move_constructible T"
  shows "TransferDataSafely T (Some s, length spre) (length xs) (Some d, length dpre) h =
    (if nothrow_move_constructible T
     then (Ok (), upd_block d (dpre @ map Some xs @ dpost)
              (map MoveConstruct (slots d (length dpre) (length xs)))
              (upd_block s (spre @ map (\<lambda>x. Some (moved_from T x)) xs @ spost) [] h))
     else if \<forall>x\<in>set xs. \<not> copy_throws T x
     then (Ok (), upd_block d (dpre @ map Some xs @ dpost)
                    (map CopyConstruct (slots d (length dpre) (length xs))) h)
     else (Throw, upd_block d (dpre @ replicate (length xs) None @ dpost)
                    (map CopyConstruct (slots d (length dpre) (length (takeWhile (\<lambda>x. \<not> copy_throws T x) xs)))
                     @ map Destroy (slots d (length dpre) (length (takeWhile (\<lambda>x. \<not> copy_throws T x) xs)))) h))"
proof (cases "nothrow_move_constructible T")
  case True
  then have "\<forall>x\<in>set xs. \<not> move_throws T x" using assms(4) by (simp add: elem_ok_def)
  then show ?thesis
    using True uninitialized_move_n_block[OF assms(1,2,3)] by (simp add: TransferDataSafely_def)
next
  case False
  then show ?thesis
    using assms(5) uninitialized_copy_n_block[OF assms(1,2,3), of T]
    by (simp add: TransferDataSafely_def)
qed

lemma RawMemory_sized_fresh:
  assumes "n \<noteq> 0"
  shows "RawMemory_sized n h = (\<lparr>buffer = Some (next_addr h), capacity = n\<rparr>,
     upd_block (next_addr h) (replicate n None) [Allocate (next_addr h) n] (h\<lparr>next_addr := Suc (next_addr h)\<rparr>))"
  using assms by (simp add: RawMemory_sized_def Allocate_raw_def log_def upd_block_def)

lemma Deallocate_raw_block:
  assumes "blocks h a = Some b"
  shows "Deallocate_raw (Some a) h =
     (Ok (), h\<lparr>blocks := (blocks h)(a := None), released := released h @ [(a, b)],
               trace := trace h @ [Deallocate a]\<rparr>)"
  using assms by (simp add: Deallocate_raw_def log_def)


subsection \<open>Growth at the back\<close>

lemma RawMemory_dtor_not_Throw: "fst (RawMemory_dtor r h) \<noteq> Throw"
  by (simp add: RawMemory_dtor_def Deallocate_raw_def split: option.splits)

lemma leave_scope_Ok_not_Throw: "fst (incr_size (leave_scope nd (Ok p, v, h))) \<noteq> Throw"
  using RawMemory_dtor_not_Throw[of nd h]
  by (cases "RawMemory_dtor nd h"; cases "fst (RawMemory_dtor nd h)") (auto simp: leave_scope_def)

lemma leave_scope_Throw_block:
  assumes "blocks h b = Some blk"
  shows "leave_scope \<lparr>buffer = Some b, capacity = c\<rparr> (Throw, v, h) =
    (Throw, v, h\<lparr>blocks := (blocks h)(b := None), released := released h @ [(b, blk)],
                  trace := trace h @ [Deallocate b]\<rparr>)"
  using assms by (simp add: leave_scope_def RawMemory_dtor_def Deallocate_raw_block)

lemma replicate_split:
  "n < c \<Longrightarrow> replicate c None = replicate n None @ None # replicate (c - Suc n) None"
  by (metis Suc_diff_Suc add_diff_inverse_nat less_imp_le_nat not_less replicate_Suc replicate_add)

lemma emplace_back_grow_Throw:
  assumes T: "elem_ok T" "copy_constructible T \<or> nothrow_move_constructible T"
    and ok: "vec_ok h this" and fresh: "blocks h (next_addr h) = None"
    and full: "vsize this = Capacity this"
    and res: "emplace_back_with adopt T args this h = (Throw, this', h')"
  shows "this' = this \<and> blocks h' = blocks h \<and>
     (\<exists>blk. released h' = released h @ [(next_addr h, blk)]
          \<and> length blk = max 1 (2 * Capacity this) \<and> (\<forall>i<vsize this. blk ! i = None))"
proof -
  define n where "n = vsize this"
  define c where "c = (if n = 0 then 1 else n * 2)"
  define b where "b = next_addr h"
  define h1 where "h1 = upd_block b (replicate c None) [Allocate b c] (h\<lparr>next_addr := Suc b\<rparr>)"
  define new_data where "new_data = \<lparr>buffer = Some b, capacity = c\<rparr>"
  define body where "body = and_then (placement_new T (Some b, vsize this) args h1) (\<lambda>_ h.
      and_then (TransferDataSafely T (GetAddress (data this)) (vsize this) (GetAddress new_data) h) (\<lambda>_ h.
      and_then (destroy_n (GetAddress (data this)) (vsize this) h) (\<lambda>_ h. (Ok (Some b, vsize this), h))))"
  have nv: "vsize this = n" "GetAddress new_data = (Some b, 0)" "GetAddress (data this) = (buffer (data this), 0)"
    by (simp_all add: n_def new_data_def GetAddress_def)
  have cn: "n < c" "c \<noteq> 0" "c = max 1 (2 * Capacity this)" using full by (auto simp: c_def n_def)
  have "RawMemory_sized c h = (new_data, h1)"
    using RawMemory_sized_fresh[OF cn(2), of h] by (simp add: h1_def b_def new_data_def)
  then have rs: "RawMemory_sized (if vsize this = 0 then 1 else vsize this * 2) h = (new_data, h1)"
    unfolding c_def n_def .
  have pl: "RawMemory_plus new_data (vsize this) = Ok (Some b, vsize this)"
    using cn by (simp add: RawMemory_plus_def new_data_def n_def)
  have unf: "emplace_back_with adopt T args this h = incr_size (case body of
       (Ok p, h2) \<Rightarrow> (case adopt (data this) new_data of (d, nd) \<Rightarrow>
                           leave_scope nd (Ok p, this\<lparr>data := d\<rparr>, h2))
     | (Throw, h2) \<Rightarrow> leave_scope new_data (Throw, this, h2)
     | (AssertFail, h2) \<Rightarrow> (AssertFail, this, h2)
     | (Undefined, h2) \<Rightarrow> (Undefined, this, h2))"
    by (simp add: emplace_back_with_def full[symmetric] rs pl body_def)
  have bO: "fst (emplace_back_with adopt T args this h) \<noteq> Throw" if "body = (Ok p, h2)" for p h2
    by (simp add: unf that case_prod_beta leave_scope_Ok_not_Throw)
  have b1: "blocks h1 b = Some (replicate n None @ None # replicate (c - Suc n) None)"
    using replicate_split[OF cn(1)] by (simp add: h1_def)
  have fin: ?thesis if "body = (Throw, hf)" "blocks hf b = Some blk" "(blocks hf)(b := None) = blocks h"
      "released hf = released h" "length blk = c" "\<forall>i<n. blk ! i = None" for hf blk
    using res cn(3) that by (auto simp add: unf new_data_def leave_scope_Throw_block n_def b_def)
  have "(blocks h)(b := None) = blocks h" using fresh by (auto simp: b_def fun_eq_iff)
  then have bl0: "(blocks h1)(b := None) = blocks h" by (simp add: h1_def)
  show ?thesis
  proof (cases "construct_from T args")
    case None
    have e: "body = (Throw, h1)" by (simp add: body_def placement_new_def None)
    show ?thesis using bl0 cn(1) by (intro fin[OF e, of "replicate c None"]) (simp_all add: h1_def)
  next
    case (Some xe)
    obtain x ev where xe: "xe = (x, ev)" by (cases xe)
    define blk where "blk = replicate n None @ Some x # replicate (c - Suc n) None"
    define h2 where "h2 = upd_block b blk [ev (Some b, n)] h1"
    have c1: "placement_new T (Some b, n) args h1 = (Ok (), h2)"
      using construct_at_block[OF b1, of ev x] by (simp add: placement_new_def Some xe h2_def blk_def)
    have lb: "length blk = c" "\<forall>i<n. blk ! i = None" using cn by (auto simp: blk_def nth_append)
    show ?thesis
    proof (cases "buffer (data this)")
      case None
      then have z: "n = 0" using vec_ok_null[OF ok] by (simp add: n_def)
      have "body = (Ok (Some b, n), h2)"
        using c1 by (simp add: body_def nv None z TransferDataSafely_def)
      then show ?thesis using bO res by fastforce
    next
      case (Some a)
      define xs where "xs = elems h this"
      have ba: "blocks h a = Some (map Some xs)" and lx: "length xs = n"
        using vec_ok_block[OF ok Some] full by (simp_all add: xs_def Capacity_def n_def)
      have ab: "a \<noteq> b" using ba fresh by (auto simp: b_def)
      have s2: "blocks h2 a = Some ([] @ map Some xs @ [])"
        using ab ba by (simp add: h2_def h1_def)
      have d2: "blocks h2 b = Some ([] @ replicate (length xs) None @ Some x # replicate (c - Suc n) None)"
        by (simp add: h2_def blk_def lx)
      note tr = TransferDataSafely_block[OF s2 d2 ab T, simplified]
      show ?thesis
      proof (cases "nothrow_move_constructible T \<or> (\<forall>x\<in>set xs. \<not> copy_throws T x)")
        case True
        obtain h3 ys where t3: "TransferDataSafely T (Some a, 0) n (Some b, 0) h2 = (Ok (), h3)"
          and b3: "blocks h3 a = Some ([] @ map Some ys @ [])" and ly: "length ys = n"
        proof (cases "nothrow_move_constructible T")
          case nt: True
          define h3 where "h3 = upd_block b (map Some xs @ Some x # replicate (c - Suc n) None)
             (map MoveConstruct (slots b 0 n)) (upd_block a (map (\<lambda>x. Some (moved_from T x)) xs) [] h2)"
          have "TransferDataSafely T (Some a, 0) n (Some b, 0) h2 = (Ok (), h3)"
            using tr nt lx by (simp add: h3_def)
          moreover have "blocks h3 a = Some ([] @ map Some (map (moved_from T) xs) @ [])"
            using ab by (simp add: h3_def comp_def)
          ultimately show ?thesis using lx by (intro that[of h3 "map (moved_from T) xs"]) simp_all
        next
          case nt: False
          define h3 where "h3 = upd_block b (map Some xs @ Some x # replicate (c - Suc n) None)
             (map CopyConstruct (slots b 0 n)) h2"
          have "TransferDataSafely T (Some a, 0) n (Some b, 0) h2 = (Ok (), h3)"
            using tr nt True lx by (simp add: h3_def)
          moreover have "blocks h3 a = Some ([] @ map Some xs @ [])"
            using ab s2 by (simp add: h3_def)
          ultimately show ?thesis using lx by (intro that[of h3 xs]) simp_all
        qed
        have d3: "destroy_n (Some a, 0) n h3 = (Ok (), upd_block a (replicate n None) (map Destroy (slots a 0 n)) h3)"
          using destroy_n_block[OF b3] ly by simp
        have "body = (Ok (Some b, n), upd_block a (replicate n None) (map Destroy (slots a 0 n)) h3)"
          by (simp add: body_def nv c1 Some t3 d3)
        then show ?thesis using bO res by fastforce
      next
        case False
        define k where "k = length (takeWhile (\<lambda>x. \<not> copy_throws T x) xs)"
        define h3 where "h3 = upd_block b blk
            (map CopyConstruct (slots b 0 k) @ map Destroy (slots b 0 k)) h2"
        have t3: "TransferDataSafely T (Some a, 0) n (Some b, 0) h2 = (Throw, h3)"
          using tr False lx by (simp add: h3_def k_def blk_def)
        have e: "body = (Throw, h3)" by (simp add: body_def nv c1 Some t3)
        have "(blocks h3)(b := None) = blocks h" using bl0 by (simp add: h3_def h2_def h1_def)
        then show ?thesis using lb
          by (intro fin[OF e, of blk]) (simp_all add: h3_def h2_def h1_def)
      qed
    qed
  qed
qed


lemma discard_Throw: "discard s = (Throw, t) \<Longrightarrow> s = (Throw, t)"
  by (cases s; cases "fst s") (auto simp: discard_def)

subsection \<open>Failure of a growing PushBack or EmplaceBack\<close>

text \<open>
  Claim C1, as amended. Let the element type be copy-constructible or
  nothrow-move-constructible, and let a constructor throw during a \<open>PushBack\<close> (either
  overload) or an \<open>EmplaceBack\<close> on a full vector. Then the vector object is unchanged,
  every block of the heap is as before the call (so the elements, the length and the
  capacity are the same), the new buffer has been released and is no longer allocated,
  and at its release none of the slots \<open>0, ..., length - 1\<close>, into which elements were
  transferred, held a constructed element.
\<close>

theorem growth_failure_strong_guarantee:
  assumes "elem_ok T" and "copy_constructible T \<or> nothrow_move_constructible T"
    and "vec_ok h this" and "blocks h (next_addr h) = None" and "vsize this = Capacity this"
    and "res \<in> {PushBack T x this h, PushBack_rvalue T x this h, discard (EmplaceBack T args this h)}"
    and "res = (Throw, this', h')"
  shows "this' = this \<and> blocks h' = blocks h \<and> elems h' this' = elems h this
     \<and> Size this' = Size this \<and> Capacity this' = Capacity this
     \<and> blocks h' (next_addr h) = None
     \<and> (\<exists>blk. released h' = released h @ [(next_addr h, blk)]
            \<and> length blk = max 1 (2 * Capacity this) \<and> (\<forall>i<vsize this. blk ! i = None))"
proof -
  have "\<exists>adopt a. discard (emplace_back_with adopt T a this h) = (Throw, this', h')"
    using assms(6,7) unfolding PushBack_def PushBack_rvalue_def EmplaceBack_def by blast
  then obtain adopt a where d: "discard (emplace_back_with adopt T a this h) = (Throw, this', h')"
    by blast
  from emplace_back_grow_Throw[OF assms(1-5) discard_Throw[OF d]]
  have r: "this' = this" "blocks h' = blocks h"
    "\<exists>blk. released h' = released h @ [(next_addr h, blk)]
        \<and> length blk = max 1 (2 * Capacity this) \<and> (\<forall>i<vsize this. blk ! i = None)"
    by blast+
  have "elems h' this' = elems h this" using r(1,2) by (simp add: elems_def split: option.splits)
  then show ?thesis using r assms(4) by simp
qed

theorem growth_failure_strong_guarantee_witness:
  "elem_ok (T_copy_throws_on 2)
   \<and> (copy_constructible (T_copy_throws_on 2) \<or> nothrow_move_constructible (T_copy_throws_on 2))
   \<and> vec_ok heap12 vec12
   \<and> blocks heap12 (next_addr heap12) = None
   \<and> vsize vec12 = Capacity vec12
   \<and> fst (PushBack (T_copy_throws_on 2) 3 vec12 heap12) = Throw
   \<and> fst (snd (PushBack (T_copy_throws_on 2) 3 vec12 heap12)) = vec12
   \<and> elems (snd (snd (PushBack (T_copy_throws_on 2) 3 vec12 heap12)))
         (fst (snd (PushBack (T_copy_throws_on 2) 3 vec12 heap12)))
       = elems heap12 vec12"
proof -
  let ?T = "T_copy_throws_on 2" and ?h = "heap12" and ?v = "vec12"
  let ?res = "PushBack ?T 3 ?v ?h"
  have 1: "elem_ok ?T" by (simp add: elem_ok_def T_copy_throws_on_def)
  have 2: "copy_constructible ?T \<or> nothrow_move_constructible ?T" by (simp add: T_copy_throws_on_def)
  have 3: "vec_ok ?h ?v" by (simp add: vec_ok_def heap12_def vec12_def heap_of_def vec_at0_def)
  have 4: "blocks ?h (next_addr ?h) = None" by (simp add: heap12_def heap_of_def)
  have 5: "vsize ?v = Capacity ?v" by (simp add: Capacity_def vec12_def vec_at0_def)
  have 6: "?res \<in> {PushBack ?T 3 ?v ?h, PushBack_rvalue ?T 3 ?v ?h, discard (EmplaceBack ?T (Args None) ?v ?h)}"
    by simp
  have t: "fst ?res = Throw" by code_simp
  then have 7: "?res = (Throw, fst (snd ?res), snd (snd ?res))" by (metis prod.collapse)
  show ?thesis
    using growth_failure_strong_guarantee[OF 1 2 3 4 5 6 7] 1 2 3 4 5 t by blast
qed

text \<open>
  Claim C1, as stated, fails: the element type below is move-only and its move
  constructor throws on the value 2. The vector \<open>[1, 2]\<close> is full; \<open>PushBack\<close> of an rvalue
  moves the first element to the new buffer, the move of the second throws, and the
  vector is left holding \<open>[0, 2]\<close>: its first element is the moved-from one.
\<close>

theorem growth_failure_move_only_counterexample:
  "vec_ok heap12 vec12
   \<and> vsize vec12 = Capacity vec12
   \<and> fst (PushBack_rvalue (T_move_only 2) 3 vec12 heap12) = Throw
   \<and> elems heap12 vec12 = [1, 2]
   \<and> elems (snd (snd (PushBack_rvalue (T_move_only 2) 3 vec12 heap12)))
         (fst (snd (PushBack_rvalue (T_move_only 2) 3 vec12 heap12))) = [0, 2]"
  by code_simp

text \<open>
  What the amended claim leaves open: \<open>PushBack\<close> and \<open>EmplaceBack\<close> have no handler around
  the transfer, so the new element, already constructed in the last slot of the new
  buffer, is still constructed when that buffer is released. Here the copy of the
  element 2 throws, and the released block holds the pushed 3 in slot 2.
\<close>

lemma growth_failure_new_element_not_destroyed:
  "fst (PushBack (T_copy_throws_on 2) 3 vec12 heap12) = Throw
   \<and> released (snd (snd (PushBack (T_copy_throws_on 2) 3 vec12 heap12)))
       = [(1, [None, None, Some 3, None])]
   \<and> trace (snd (snd (PushBack (T_copy_throws_on 2) 3 vec12 heap12)))
       = [Allocate 1 4, CopyConstruct (Some 1, 2), CopyConstruct (Some 1, 0), Destroy (Some 1, 0),
          Deallocate 1]"
  by code_simp

subsection \<open>Contract checks and PopBack\<close>

lemma vec_okI:
  assumes "buffer (data v) = Some a" "blocks h a = Some (map Some xs @ replicate k None)"
    and "vsize v = length xs" "capacity (data v) = length xs + k" "length xs + k \<noteq> 0"
  shows "vec_ok h v" and "elems h v = xs"
  using assms by (simp_all add: vec_ok_def elems_def list_all_iff comp_def)

lemma PopBack_nonempty:
  assumes ok: "vec_ok h this" and pos: "0 < vsize this"
  shows "\<exists>h'. PopBack this h = (Ok (), this\<lparr>vsize := vsize this - 1\<rparr>, h')
      \<and> elems h' (this\<lparr>vsize := vsize this - 1\<rparr>) = butlast (elems h this)
      \<and> trace h' = trace h @ [Destroy (buffer (data this), vsize this - 1)]
      \<and> vec_ok h' (this\<lparr>vsize := vsize this - 1\<rparr>)"
proof -
  obtain a where a: "buffer (data this) = Some a"
    using vec_ok_null(2)[OF ok] pos by (cases "buffer (data this)") auto
  define xs where "xs = elems h this"
  define k where "k = capacity (data this) - vsize this"
  have b: "blocks h a = Some (map Some xs @ replicate k None)" and lx: "length xs = vsize this"
    using vec_ok_block[OF ok a] by (simp_all add: xs_def k_def)
  have le: "vsize this \<le> capacity (data this)" using ok by (simp add: vec_ok_def)
  have ne: "xs \<noteq> []" using lx pos by auto
  define ys where "ys = butlast xs"
  have xs: "xs = ys @ [last xs]" using ne by (simp add: ys_def)
  have ly: "length ys = vsize this - 1" using lx by (simp add: ys_def)
  have b': "blocks h a = Some (map Some ys @ Some (last xs) # replicate k None)"
    using b by (subst (asm) xs) simp
  define h' where "h' = upd_block a (map Some ys @ None # replicate k None)
                          [Destroy (Some a, length (map Some ys))] h"
  have d: "destroy_at (Some a, length (map Some ys)) h = (Ok (), h')"
    using destroy_at_block[OF b'] by (simp add: h'_def)
  have s: "size_t_sub (vsize this) 1 = vsize this - 1" "size_t_sub (vsize this) (Suc 0) = vsize this - 1"
    using pos by (simp_all add: size_t_sub_def)
  have p: "PopBack this h = (Ok (), this\<lparr>vsize := vsize this - 1\<rparr>, h')"
    using d by (simp add: PopBack_def s GetAddress_def ptr_add_def a ly)
  have bn: "blocks h' a = Some (map Some ys @ replicate (Suc k) None)" by (simp add: h'_def)
  have v: "vec_ok h' (this\<lparr>vsize := vsize this - 1\<rparr>)" "elems h' (this\<lparr>vsize := vsize this - 1\<rparr>) = ys"
    using vec_okI[of "this\<lparr>vsize := vsize this - 1\<rparr>" a h' ys "Suc k"] a bn ly le pos
    by (simp_all add: k_def)
  show ?thesis
    using p v lx by (intro exI[of _ h']) (simp add: ys_def xs_def h'_def a)
qed

lemma PopBack_empty:
  assumes ok: "vec_ok h this" and z: "vsize this = 0"
  shows "fst (PopBack this h) = Undefined"
proof (cases "buffer (data this)")
  case None
  then show ?thesis
    by (simp add: PopBack_def destroy_at_def slot_def ptr_add_def GetAddress_def)
next
  case (Some a)
  have b: "blocks h a = Some (replicate (capacity (data this)) None)"
    using vec_ok_block(1,2)[OF ok Some] z by simp
  have "slot h (Some a, size_t_sub 0 1) \<noteq> Some (Some x)" for x
    using b by (auto simp: slot_def)
  then show ?thesis
    by (auto simp add: PopBack_def destroy_at_def z ptr_add_def GetAddress_def Some
        split: option.splits)
qed

text \<open>
  Claim C9, as amended. \<^verbatim>\<open>Vector::operator[]\<close> with an index that is not below the length,
  \<^verbatim>\<open>RawMemory::operator+\<close> with an offset above the capacity and \<^verbatim>\<open>RawMemory::operator[]\<close>
  with an index that is not below the capacity fail their assertion. \<open>PopBack\<close> has no
  assertion: on an empty vector it is undefined behaviour. On a vector that is not empty
  it returns normally, destroys exactly the last element and decrements the length by
  one; the other elements are as before.
\<close>

theorem contract_checks:
  "(vsize this \<le> index \<longrightarrow> Vector_index this index = AssertFail)
   \<and> (capacity rm < offset \<longrightarrow> RawMemory_plus rm offset = AssertFail)
   \<and> (capacity rm \<le> index \<longrightarrow> RawMemory_index rm index = AssertFail)
   \<and> (vec_ok h0 this0 \<and> vsize this0 = 0 \<longrightarrow> fst (PopBack this0 h0) = Undefined)
   \<and> (vec_ok h this \<and> 0 < vsize this \<longrightarrow>
        (\<exists>h'. PopBack this h = (Ok (), this\<lparr>vsize := vsize this - 1\<rparr>, h')
           \<and> elems h' (this\<lparr>vsize := vsize this - 1\<rparr>) = butlast (elems h this)
           \<and> trace h' = trace h @ [Destroy (buffer (data this), vsize this - 1)]
           \<and> vec_ok h' (this\<lparr>vsize := vsize this - 1\<rparr>)))"
  using PopBack_nonempty[of h this] PopBack_empty[of h0 this0]
  by (simp add: Vector_index_def RawMemory_plus_def RawMemory_index_def)

theorem contract_checks_witness:
  "vsize vec12 \<le> 2 \<and> Vector_index vec12 2 = AssertFail
   \<and> capacity (data vec12) < 3 \<and> RawMemory_plus (data vec12) 3 = AssertFail
   \<and> capacity (data vec12) \<le> 2 \<and> RawMemory_index (data vec12) 2 = AssertFail
   \<and> vec_ok (empty_heap :: int heap) Vector_default \<and> vsize Vector_default = 0
   \<and> fst (PopBack Vector_default (empty_heap :: int heap)) = Undefined
   \<and> vec_ok heap12 vec12 \<and> 0 < vsize vec12
   \<and> (\<exists>h'. PopBack vec12 heap12 = (Ok (), vec12\<lparr>vsize := vsize vec12 - 1\<rparr>, h')
         \<and> elems h' (vec12\<lparr>vsize := vsize vec12 - 1\<rparr>) = butlast (elems heap12 vec12)
         \<and> trace h' = trace heap12 @ [Destroy (buffer (data vec12), vsize vec12 - 1)])"
proof -
  have 1: "vec_ok heap12 vec12" "0 < vsize vec12" "vsize vec12 \<le> 2" "capacity (data vec12) < 3"
    "capacity (data vec12) \<le> 2"
    by (simp_all add: vec_ok_def heap12_def vec12_def heap_of_def vec_at0_def)
  have 2: "vec_ok (empty_heap :: int heap) Vector_default" "vsize Vector_default = 0"
    by (simp_all add: vec_ok_def Vector_default_def RawMemory_default_def)
  show ?thesis
    using contract_checks[where this = vec12 and h = heap12 and index = 2 and rm = "data vec12"
        and offset = 3 and ?this0.0 = Vector_default and ?h0.0 = "empty_heap :: int heap"] 1 2
    by blast
qed

text \<open>
  Claim C9, as stated, fails for \<open>PopBack\<close>: on the empty vector no assertion fails; the
  call destroys the slot at offset \<open>2^64 - 1\<close> of no buffer.
\<close>

theorem PopBack_empty_counterexample:
  "vsize Vector_default = 0
   \<and> fst (PopBack Vector_default (empty_heap :: int heap)) = Undefined
   \<and> fst (PopBack Vector_default (empty_heap :: int heap)) \<noteq> AssertFail"
  by (simp add: PopBack_def destroy_at_def slot_def ptr_add_def GetAddress_def Vector_default_def
      RawMemory_default_def)

subsection \<open>Release of the raw memory\<close>

text \<open>
  Claim C2 on a failing input. An empty vector of \<open>int\<close> takes two \<open>EmplaceBack\<close> calls and
  is destroyed. The second call grows from the block at address 0 (one slot) to the
  block at address 1; \<^verbatim>\<open>data_ = std::move(new_data)\<close> overwrites the pointer to block 0,
  which is never deallocated: after the destructor it is still allocated, and only
  block 1 has been released.
\<close>

theorem emplace_back_leaks_old_buffer:
  "fst emplace_twice = Ok (Some 1, 1)
   \<and> elems (snd (snd emplace_twice)) (fst (snd emplace_twice)) = [1, 2]
   \<and> fst emplace_twice_destroyed = Ok ()
   \<and> trace (snd emplace_twice_destroyed) =
       [Allocate 0 1, ArgsConstruct (Some 0, 0),
        Allocate 1 2, ArgsConstruct (Some 1, 1), MoveConstruct (Some 1, 0), Destroy (Some 0, 0),
        Destroy (Some 1, 0), Destroy (Some 1, 1), Deallocate 1]
   \<and> blocks (snd emplace_twice_destroyed) 0 = Some [None]
   \<and> released (snd emplace_twice_destroyed) = [(1, [None, None])]"
  by code_simp

text \<open>The sibling \<^verbatim>\<open>PushBack(const T&)\<close> adopts the new buffer by \<open>Swap\<close> and releases both blocks.\<close>

lemma push_back_releases_old_buffer:
  "fst push_twice_destroyed = Ok ()
   \<and> blocks (snd push_twice_destroyed) 0 = None \<and> blocks (snd push_twice_destroyed) 1 = None
   \<and> released (snd push_twice_destroyed) = [(0, [None]), (1, [None, None])]"
  by code_simp

subsection \<open>The representation invariant after a failed insertion\<close>

text \<open>
  Claim C5 on a failing input. The vector \<open>[1, 2]\<close> with capacity 4 satisfies the
  invariant. \<open>Insert\<close> at the front of a value whose copy throws takes the branch without
  reallocation: the last element is move-constructed into slot 2, the elements are
  shifted, then the construction of the temporary throws. The length is still 2, and
  slot 2, outside the length, holds a constructed element.
\<close>

theorem insert_failure_breaks_invariant:
  "fst reserved12 = Ok () \<and> vec_ok (snd (snd reserved12)) (fst (snd reserved12))
   \<and> elems (snd (snd reserved12)) (fst (snd reserved12)) = [1, 2]
   \<and> Capacity (fst (snd reserved12)) = 4
   \<and> fst insert_throws = Throw
   \<and> Size (fst (snd insert_throws)) = 2 \<and> Capacity (fst (snd insert_throws)) = 4
   \<and> blocks (snd (snd insert_throws)) 0 = Some [Some 0, Some 1, Some 2, None]
   \<and> \<not> vec_ok (snd (snd insert_throws)) (fst (snd insert_throws))"
  by code_simp

subsection \<open>The vector object after an insertion\<close>

lemma next_and_then:
  assumes "\<And>r s. next_addr (snd (f r s)) = next_addr s"
  shows "next_addr (snd (and_then m f)) = next_addr (snd m)"
  using assms by (cases m; cases "fst m") auto


lemma next_construct_at [simp]: "next_addr (snd (construct_at ev p x h)) = next_addr h"
  by (simp add: construct_at_def store_def log_def split: option.splits)

lemma next_store [simp]: "next_addr (store p x h) = next_addr h"
  by (simp add: store_def split: option.splits)

lemma next_destroy_at [simp]: "next_addr (snd (destroy_at p h)) = next_addr h"
  by (simp add: destroy_at_def log_def split: option.splits)

lemma next_destroy_n [simp]: "next_addr (snd (destroy_n p n h)) = next_addr h"
  by (induction n arbitrary: p h) (simp_all add: next_and_then)

lemma next_placement_new [simp]: "next_addr (snd (placement_new T p args h)) = next_addr h"
  by (simp add: placement_new_def split: option.splits prod.splits)

lemma next_copy_construct_loop [simp]:
  "next_addr (snd (copy_construct_loop T src n dst k h)) = next_addr h"
  by (induction n arbitrary: src k h) (simp_all add: next_and_then split: option.splits)

lemma next_uninitialized_copy_n [simp]:
  "next_addr (snd (uninitialized_copy_n T src n dst h)) = next_addr h"
  by (simp add: uninitialized_copy_n_def)

lemma next_move_construct_loop [simp]:
  "next_addr (snd (move_construct_loop T src n dst k h)) = next_addr h"
proof (induction n arbitrary: src k h)
  case 0
  then show ?case by simp
next
  case (Suc n)
  have "next_addr (snd (and_then (construct_at MoveConstruct (ptr_add dst k) x h)
          (\<lambda>_ h1. move_construct_loop T (ptr_add src 1) n dst (Suc k)
                       (store src (Some (moved_from T x)) h1)))) = next_addr h" for x
    by (subst next_and_then) (simp_all add: Suc.IH)
  then show ?case by (simp add: next_and_then split: option.splits)
qed

lemma next_uninitialized_move_n [simp]:
  "next_addr (snd (uninitialized_move_n T src n dst h)) = next_addr h"
  by (simp add: uninitialized_move_n_def)

lemma next_TransferDataSafely [simp]:
  "next_addr (snd (TransferDataSafely T src n dst h)) = next_addr h"
  by (simp add: TransferDataSafely_def)

lemma next_move_assign_at [simp]: "next_addr (snd (move_assign_at T dst src h)) = next_addr h"
  by (simp add: move_assign_at_def log_def split: option.splits)

lemma next_move_backward [simp]: "next_addr (snd (move_backward T first n d_first h)) = next_addr h"
  by (induction n arbitrary: h) (simp_all add: next_and_then)

lemma next_move_construct_at [simp]: "next_addr (snd (move_construct_at T dst src h)) = next_addr h"
  by (simp add: move_construct_at_def next_and_then split: option.splits)

lemma next_assign_temporary [simp]: "next_addr (snd (assign_temporary T d offset args h)) = next_addr h"
  by (simp add: assign_temporary_def RawMemory_index_def log_def split: option.splits prod.splits)

lemma next_RawMemory_dtor [simp]: "next_addr (snd (RawMemory_dtor r h)) = next_addr h"
  by (simp add: RawMemory_dtor_def Deallocate_raw_def log_def split: option.splits)

lemma next_leave_scope [simp]:
  "next_addr (snd (snd (leave_scope nd s))) = next_addr (snd (snd s))"
proof -
  obtain r v h where s: "s = (r, v, h)" by (cases s)
  show ?thesis
    by (cases r) (simp_all add: s leave_scope_def case_prod_beta next_and_then)
qed

lemma vec_leave_scope [simp]: "fst (snd (leave_scope nd s)) = fst (snd s)"
  by (simp add: leave_scope_def case_prod_beta)

lemma heap_incr_size [simp]: "snd (snd (incr_size s)) = snd (snd s)"
  by (cases s; cases "fst s") auto

lemma res_incr_size [simp]: "fst (incr_size s) = fst s"
  by (cases s; cases "fst s") auto

lemma heap_discard [simp]: "snd (discard s) = snd s"
  by (cases s; cases "fst s") (auto simp: discard_def)





lemma res_leave_scope_Ok: "fst (leave_scope nd (Ok p, v, h)) = Ok p \<or> fst (leave_scope nd (Ok p, v, h)) = Undefined"
  by (cases "RawMemory_dtor nd h"; cases "fst (RawMemory_dtor nd h)")
     (auto simp: leave_scope_def RawMemory_dtor_def Deallocate_raw_def split: option.splits)

lemma res_leave_scope_Throw:
  "fst (leave_scope nd (Throw, v, h)) = Throw \<or> fst (leave_scope nd (Throw, v, h)) = Undefined"
  by (cases "RawMemory_dtor nd h"; cases "fst (RawMemory_dtor nd h)")
     (auto simp: leave_scope_def RawMemory_dtor_def Deallocate_raw_def split: option.splits)

lemma res_leave_scope_Throw_neq [simp]: "fst (leave_scope nd (Throw, v, h)) \<noteq> Ok q"
  by (cases "RawMemory_dtor nd h"; cases "fst (RawMemory_dtor nd h)")
     (auto simp: leave_scope_def RawMemory_dtor_def Deallocate_raw_def split: option.splits)

lemma res_leave_scope_Ok_neq [simp]: "fst (leave_scope nd (Ok p, v, h)) \<noteq> Throw"
  by (cases "RawMemory_dtor nd h"; cases "fst (RawMemory_dtor nd h)")
     (auto simp: leave_scope_def RawMemory_dtor_def Deallocate_raw_def split: option.splits)



lemma res_discard [simp]:
  "(fst (discard s) = Ok ()) = (\<exists>p. fst s = Ok p)" "(fst (discard s) = Throw) = (fst s = Throw)"
  by (cases s; cases "fst s"; auto simp: discard_def)+

lemma res_return_begin_plus [simp]:
  "(fst (return_begin_plus k s) = Throw) = (fst s = Throw)"
  "(\<exists>p. fst (return_begin_plus k s) = Ok p) = (fst s = Ok ())"
  "fst (snd (return_begin_plus k s)) = fst (snd s)"
  by (cases s; cases "fst s"; auto)+

lemma return_begin_plus_not_Ok: "fst s \<noteq> Ok () \<Longrightarrow> fst (return_begin_plus k s) \<noteq> Ok q"
  by (cases s; cases "fst s") auto

lemma vec_discard: "fst (snd (discard s)) = fst (snd s)"
  by simp







subsection \<open>Erase\<close>

lemma move_assign_at_next:
  assumes "blocks h a = Some (pre @ Some y # Some x # post)" "\<not> move_assign_throws T x"
  shows "move_assign_at T (Some a, length pre) (Some a, Suc (length pre)) h =
    (Ok (), upd_block a (pre @ Some x # Some (moved_from T x) # post) [MoveAssign (Some a, length pre)] h)"
proof -
  have 1: "slot h (Some a, length pre) = Some (Some y)"
    using assms(1) by (simp add: slot_def)
  have 2: "slot h (Some a, Suc (length pre)) = Some (Some x)"
    using assms(1) by (simp add: slot_def nth_append)
  show ?thesis
    using assms by (simp add: move_assign_at_def 1 2 store_def log_def upd_block_def list_update_append)
qed

lemma move_forward_block:
  assumes "blocks h a = Some (pre @ Some y # map Some xs @ post)"
    and "\<forall>x\<in>set xs. \<not> move_assign_throws T x"
  shows "move_forward T (Some a, Suc (length pre)) (length xs) (Some a, length pre) h =
    (Ok (), upd_block a (pre @ map Some xs @ Some (last (y # map (moved_from T) xs)) # post)
              (map MoveAssign (slots a (length pre) (length xs))) h)"
  using assms
proof (induction xs arbitrary: pre y h)
  case Nil
  then show ?case by (simp add: upd_block_same)
next
  case (Cons x xs)
  let ?h1 = "upd_block a (pre @ Some x # Some (moved_from T x) # map Some xs @ post)
               [MoveAssign (Some a, length pre)] h"
  have m: "move_assign_at T (Some a, length pre) (Some a, Suc (length pre)) h = (Ok (), ?h1)"
    using move_assign_at_next[of h a pre y x "map Some xs @ post" T] Cons.prems by simp
  have b1: "blocks ?h1 a = Some ((pre @ [Some x]) @ Some (moved_from T x) # map Some xs @ post)"
    by simp
  have nt: "\<forall>x\<in>set xs. \<not> move_assign_throws T x" using Cons.prems(2) by simp
  show ?case
    using Cons.IH[OF b1 nt] by (simp add: m ptr_add_def)
qed


text \<open>
  Claim C8. For a vector that is not empty and a position \<open>p\<close> below its length, when no
  move assignment throws, \<open>Erase\<close> returns normally; it move-assigns the elements at
  \<open>p + 1, ..., length - 1\<close> one slot to the left, in this order, then destroys the last
  slot, and the length is one less. The elements are then the original ones without
  the one at \<open>p\<close>, in their order.
\<close>

theorem Erase_removes_element:
  assumes ok: "vec_ok h this" and p: "p < vsize this" and pos: "pos = ptr_add (begin_it this) p"
    and nt: "\<forall>x\<in>set (drop (Suc p) (elems h this)). \<not> move_assign_throws T x"
  shows "\<exists>h' a. Erase T pos this h = (Ok pos, this\<lparr>vsize := vsize this - 1\<rparr>, h')
     \<and> elems h' (this\<lparr>vsize := vsize this - 1\<rparr>) = take p (elems h this) @ drop (Suc p) (elems h this)
     \<and> vec_ok h' (this\<lparr>vsize := vsize this - 1\<rparr>)
     \<and> buffer (data this) = Some a
     \<and> trace h' = trace h @ map MoveAssign (slots a p (vsize this - 1 - p))
                      @ [Destroy (Some a, vsize this - 1)]"
proof -
  obtain a where a: "buffer (data this) = Some a"
    using vec_ok_null(2)[OF ok] p by (cases "buffer (data this)") auto
  define xs where "xs = elems h this"
  define n where "n = vsize this"
  define k where "k = capacity (data this) - n"
  define xs' where "xs' = drop (Suc p) xs"
  define pre where "pre = map Some (take p xs)"
  have b: "blocks h a = Some (map Some xs @ replicate k None)" and lx: "length xs = n"
    using vec_ok_block[OF ok a] by (simp_all add: xs_def k_def n_def)
  have le: "n \<le> capacity (data this)" using ok by (simp add: vec_ok_def n_def)
  have pn: "p < n" using p by (simp add: n_def)
  have xs: "xs = take p xs @ xs ! p # xs'" using pn lx by (simp add: xs'_def id_take_nth_drop)
  have lp: "length pre = p" "length xs' = n - Suc p" using pn lx by (simp_all add: pre_def xs'_def)
  have b1: "blocks h a = Some (pre @ Some (xs ! p) # map Some xs' @ replicate k None)"
    using b by (subst (asm) xs) (simp add: pre_def)
  define z where "z = last (xs ! p # map (moved_from T) xs')"
  define h1 where "h1 = upd_block a (pre @ map Some xs' @ Some z # replicate k None)
                          (map MoveAssign (slots a p (n - Suc p))) h"
  have nt': "\<forall>x\<in>set xs'. \<not> move_assign_throws T x" using nt by (simp add: xs'_def xs_def)
  have mf: "move_forward T (Some a, Suc p) (n - Suc p) (Some a, p) h = (Ok (), h1)"
    using move_forward_block[OF b1 nt'] by (simp add: lp h1_def z_def)
  have b2: "blocks h1 a = Some ((pre @ map Some xs') @ Some z # replicate k None)"
    by (simp add: h1_def)
  define h2 where "h2 = upd_block a ((pre @ map Some xs') @ None # replicate k None)
                          [Destroy (Some a, n - 1)] h1"
  have l2: "length (pre @ map Some xs') = n - 1" using lp pn by simp
  have da: "destroy_at (Some a, n - 1) h1 = (Ok (), h2)"
    using destroy_at_block[OF b2] unfolding l2 by (simp add: h2_def)
  have d1: "distance (begin_it this) pos = Some p"
    by (simp add: distance_def pos begin_it_def GetAddress_def ptr_add_def)
  have d2: "distance (Some a, Suc p) (end_it this) = Some (n - Suc p)"
    using pn by (simp add: distance_def end_it_def GetAddress_def ptr_add_def Size_def n_def a)
  have d3: "ptr_sub (end_it this) 1 = Some (Some a, n - 1)"
    using pn by (simp add: ptr_sub_def end_it_def GetAddress_def ptr_add_def Size_def n_def a)
  have pp: "ptr_add (begin_it this) p = (Some a, p)" "ptr_add (Some a, p) 1 = (Some a, Suc p)"
    by (simp_all add: begin_it_def GetAddress_def ptr_add_def a)
  have st: "size_t_sub (vsize this) 1 = n - 1" using pn by (simp add: size_t_sub_def n_def)
  have e: "Erase T pos this h = (Ok pos, this\<lparr>vsize := n - 1\<rparr>, h2)"
    unfolding Erase_def d1 option.case pp d2 d3 mf and_then.simps da prod.case res.case st ..
  have bn: "blocks h2 a = Some (map Some (take p xs @ xs') @ replicate (Suc k) None)"
    by (simp add: h2_def pre_def)
  have v: "vec_ok h2 (this\<lparr>vsize := n - 1\<rparr>)" "elems h2 (this\<lparr>vsize := n - 1\<rparr>) = take p xs @ xs'"
    using vec_okI[of "this\<lparr>vsize := n - 1\<rparr>" a h2 "take p xs @ xs'" "Suc k"] a bn lp le pn lx
    by (simp_all add: k_def)
  have tr: "trace h2 = trace h @ map MoveAssign (slots a p (n - 1 - p)) @ [Destroy (Some a, n - 1)]"
    by (simp add: h2_def h1_def)
  show ?thesis
    using e v a tr unfolding n_def[symmetric] xs_def[symmetric] xs'_def[symmetric]
    by (intro exI[of _ h2] exI[of _ a]) (simp add: xs'_def)
qed


theorem Erase_removes_element_witness:
  "vec_ok heap123 vec123 \<and> 1 < vsize vec123
   \<and> elems heap123 vec123 = [1, 2, 3] \<and> drop (Suc 1) (elems heap123 vec123) = [3]
   \<and> \<not> move_assign_throws T_int 3
   \<and> (\<exists>h' a. Erase T_int (ptr_add (begin_it vec123) 1) vec123 heap123
               = (Ok (ptr_add (begin_it vec123) 1), vec123\<lparr>vsize := vsize vec123 - 1\<rparr>, h')
         \<and> elems h' (vec123\<lparr>vsize := vsize vec123 - 1\<rparr>) = [1, 3]
         \<and> vec_ok h' (vec123\<lparr>vsize := vsize vec123 - 1\<rparr>)
         \<and> buffer (data vec123) = Some a
         \<and> trace h' = trace heap123 @ [MoveAssign (Some a, 1), Destroy (Some a, 2)])"
proof -
  have e: "elems heap123 vec123 = [1, 2, 3]"
    by (simp add: elems_def heap123_def vec123_def heap_of_def vec_at0_def)
  have 1: "vec_ok heap123 vec123" "1 < vsize vec123"
    by (simp_all add: vec_ok_def heap123_def vec123_def heap_of_def vec_at0_def)
  have 2: "\<forall>x\<in>set (drop (Suc 1) (elems heap123 vec123)). \<not> move_assign_throws T_int x"
    by (simp add: T_int_def)
  have 3: "vsize vec123 - 1 - 1 = Suc 0" "vsize vec123 - 1 = 2"
    by (simp_all add: vec123_def vec_at0_def)
  have 4: "\<not> move_assign_throws T_int 3" by (simp add: T_int_def)
  show ?thesis
    using Erase_removes_element[OF 1 refl 2] 1 4 e unfolding 3 by simp
qed

subsection \<open>Emplace with reallocation\<close>

lemma leave_scope_null: "leave_scope \<lparr>buffer = None, capacity = c\<rparr> (r, v, h) = (r, v, h)"
  by (cases r) (simp_all add: leave_scope_def RawMemory_dtor_def Deallocate_raw_def)

text \<open>The reallocating branch of Emplace, from the result of filling the new buffer.\<close>

lemma Emplace_grow_unfold:
  fixes this :: Vector and h :: "'a heap" and T :: "'a elem" and args :: "'a ctor_args"
    and p :: nat and a :: addr
  assumes full: "vsize this = Capacity this" and a: "buffer (data this) = Some a"
    and p: "p < vsize this"
  defines "b \<equiv> next_addr h" and "c \<equiv> 2 * vsize this"
  defines "nd \<equiv> \<lparr>buffer = Some b, capacity = c\<rparr>"
  defines "h1 \<equiv> upd_block b (replicate c None) [Allocate b c] (h\<lparr>next_addr := Suc b\<rparr>)"
  defines "body \<equiv> and_then (placement_new T (Some b, p) args h1) (\<lambda>_ h.
                      and_then (catch_rethrow
                                  (TransferDataSafely T (Some a, 0) p (Some b, 0) h)
                                  (destroy_at (Some b, p))) (\<lambda>_ h.
                      and_then (catch_rethrow
                                  (TransferDataSafely T (Some a, p) (vsize this - p) (Some b, Suc p) h)
                                  (destroy_n (Some b, 0) (Suc p))) (\<lambda>_ h.
                      destroy_n (Some a, 0) (vsize this) h)))"
  shows "body = (Throw, hf) \<Longrightarrow> blocks hf b = Some blk \<Longrightarrow>
           Emplace T (ptr_add (begin_it this) p) args this h =
             (Throw, this, hf\<lparr>blocks := (blocks hf)(b := None), released := released hf @ [(b, blk)],
                               trace := trace hf @ [Deallocate b]\<rparr>)"
    and "body = (Ok (), hf) \<Longrightarrow>
           Emplace T (ptr_add (begin_it this) p) args this h
             = (Ok (Some b, p), \<lparr>data = nd, vsize = vsize this + 1\<rparr>, hf)"
    and "fst body \<noteq> Ok () \<Longrightarrow> fst (Emplace T (ptr_add (begin_it this) p) args this h) \<noteq> Ok q"
proof -
  have c0: "c \<noteq> 0" and c1: "(if vsize this = 0 then 1 else vsize this * 2) = c"
    using p by (auto simp: c_def)
  have rs: "RawMemory_sized c h = (nd, h1)"
    using RawMemory_sized_fresh[OF c0, of h] by (simp add: h1_def b_def nd_def)
  have d: "distance (Some a, 0) (Some a, p) = Some p"
    by (simp add: distance_def)
  have ne: "(Some a, p) \<noteq> end_it this"
    using p by (simp add: ptr_add_def end_it_def GetAddress_def Size_def)
  have pl: "RawMemory_plus nd p = Ok (Some b, p)"
    using p by (simp add: RawMemory_plus_def nd_def c_def)
  have pp: "begin_it this = (Some a, 0)" "GetAddress nd = (Some b, 0)" "GetAddress (data this) = (Some a, 0)"
    "ptr_add (Some b, 0) p = (Some b, p)" "ptr_add (Some a, 0) p = (Some a, p)"
    "ptr_add (Some b, 0) (Suc p) = (Some b, Suc p)" "size_t_sub (vsize this) p = vsize this - p"
    "p + 1 = Suc p"
    using p by (simp_all add: begin_it_def GetAddress_def a nd_def ptr_add_def size_t_sub_def)
  have e: "Emplace T (ptr_add (begin_it this) p) args this h = return_begin_plus p (incr_size (case body of
           (Ok _, h2) \<Rightarrow> (case RawMemory_move_assign (data this) nd of (d, nd) \<Rightarrow>
                               leave_scope nd (Ok (), this\<lparr>data := d\<rparr>, h2))
         | (Throw, h2) \<Rightarrow> leave_scope nd (Throw, this, h2)
         | (AssertFail, h2) \<Rightarrow> (AssertFail, this, h2)
         | (Undefined, h2) \<Rightarrow> (Undefined, this, h2)))"
    unfolding Emplace_def d option.case if_not_P[OF ne] if_P[OF full] c1 rs prod.case pl
      and_then.simps pp body_def ..
  show "Emplace T (ptr_add (begin_it this) p) args this h =
             (Throw, this, hf\<lparr>blocks := (blocks hf)(b := None), released := released hf @ [(b, blk)],
                               trace := trace hf @ [Deallocate b]\<rparr>)"
    if "body = (Throw, hf)" "blocks hf b = Some blk"
    unfolding e that(1) using that(2) by (simp add: nd_def leave_scope_Throw_block)
  show "Emplace T (ptr_add (begin_it this) p) args this h
             = (Ok (Some b, p), \<lparr>data = nd, vsize = vsize this + 1\<rparr>, hf)"
    if "body = (Ok (), hf)"
    unfolding e that
    by (simp add: RawMemory_move_assign_def nd_def leave_scope_null begin_it_def GetAddress_def
        ptr_add_def)
  show "fst (Emplace T (ptr_add (begin_it this) p) args this h) \<noteq> Ok q" if "fst body \<noteq> Ok ()"
  proof -
    obtain r hb where bd: "body = (r, hb)" by (cases body)
    have "fst (incr_size (case body of
           (Ok _, h2) \<Rightarrow> (case RawMemory_move_assign (data this) nd of (d, nd) \<Rightarrow>
                               leave_scope nd (Ok (), this\<lparr>data := d\<rparr>, h2))
         | (Throw, h2) \<Rightarrow> leave_scope nd (Throw, this, h2)
         | (AssertFail, h2) \<Rightarrow> (AssertFail, this, h2)
         | (Undefined, h2) \<Rightarrow> (Undefined, this, h2))) \<noteq> Ok ()"
      using that by (cases r) (simp_all add: bd)
    then show ?thesis unfolding e by (rule return_begin_plus_not_Ok)
  qed
qed


text \<open>
  Claim C3, as amended. Let the element type be copy-constructible or
  nothrow-move-constructible, and let \<open>Emplace\<close> at an interior position \<open>p\<close> of a full
  vector reallocate. When the constructor of the new element succeeds, the first two
  events of the call are the allocation of the new buffer and the construction of the
  new element at offset \<open>p\<close> of it. The call throws if and only if that constructor
  throws or a copy of an old element throws; then the vector object and every block of
  the heap are as before, and the new buffer was released with all its slots raw. When
  the prefix transfer throws, the elements it had copied are destroyed, from the first
  to the last, and the handler destroys only the new element; when the suffix transfer
  throws, the suffix elements it had copied are destroyed, from the first to the last,
  and the handler destroys the prefix and the new element. Otherwise the call returns
  the slot \<open>p\<close> of the new buffer, the vector has the new buffer with the elements
  \<open>take p xs @ x # drop p xs\<close>, and the events of the call are the allocation, the
  construction of the new element, the transfer of the prefix, the transfer of the
  suffix and then the destruction of all old elements, followed by what the adoption
  of the new buffer does.
\<close>

theorem Emplace_growth_rollback:
  fixes this :: Vector and h :: "'a heap" and T :: "'a elem" and args :: "'a ctor_args"
    and p :: nat and a :: addr
  defines "b \<equiv> next_addr h" and "c \<equiv> 2 * vsize this" and "xs \<equiv> elems h this"
  defines "K \<equiv> if nothrow_move_constructible T then MoveConstruct else CopyConstruct"
  assumes T: "elem_ok T" "copy_constructible T \<or> nothrow_move_constructible T"
    and ok: "vec_ok h this" and fresh: "blocks h (next_addr h) = None"
    and full: "vsize this = Capacity this" and a: "buffer (data this) = Some a"
    and p: "p < vsize this"
    and res: "Emplace T (ptr_add (begin_it this) p) args this h = (r, this', h')"
  shows "(\<forall>x ev. construct_from T args = Some (x, ev) \<longrightarrow>
            (\<exists>es. trace h' = trace h @ [Allocate b c, ev (Some b, p)] @ es))
    \<and> ((r = Throw) = (construct_from T args = None
                       \<or> \<not> nothrow_move_constructible T \<and> (\<exists>y\<in>set xs. copy_throws T y)))
    \<and> (r = Throw \<longrightarrow> this' = this \<and> blocks h' = blocks h
                     \<and> released h' = released h @ [(b, replicate c None)])
    \<and> (r \<noteq> Throw \<longrightarrow> r = Ok (Some b, p) \<and> this' = grown h this \<and> vec_ok h' this'
           \<and> (\<exists>x ev es. construct_from T args = Some (x, ev)
                    \<and> elems h' this' = take p xs @ x # drop p xs
                    \<and> trace h' = trace h @ [Allocate b c, ev (Some b, p)]
                         @ map K (slots b 0 p) @ map K (slots b (Suc p) (vsize this - p))
                         @ map Destroy (slots a 0 (vsize this)) @ es))
    \<and> (\<forall>x ev. construct_from T args = Some (x, ev) \<and> \<not> nothrow_move_constructible T
           \<and> (\<exists>y\<in>set (take p xs). copy_throws T y) \<longrightarrow>
           trace h' = trace h @ [Allocate b c, ev (Some b, p)]
             @ map CopyConstruct (slots b 0 (length (takeWhile (\<lambda>y. \<not> copy_throws T y) (take p xs))))
             @ map Destroy (slots b 0 (length (takeWhile (\<lambda>y. \<not> copy_throws T y) (take p xs))))
             @ [Destroy (Some b, p), Deallocate b])
    \<and> (\<forall>x ev. construct_from T args = Some (x, ev) \<and> \<not> nothrow_move_constructible T
           \<and> (\<forall>y\<in>set (take p xs). \<not> copy_throws T y) \<and> (\<exists>y\<in>set (drop p xs). copy_throws T y) \<longrightarrow>
           trace h' = trace h @ [Allocate b c, ev (Some b, p)]
             @ map CopyConstruct (slots b 0 p)
             @ map CopyConstruct (slots b (Suc p) (length (takeWhile (\<lambda>y. \<not> copy_throws T y) (drop p xs))))
             @ map Destroy (slots b (Suc p) (length (takeWhile (\<lambda>y. \<not> copy_throws T y) (drop p xs))))
             @ map Destroy (slots b 0 (Suc p)) @ [Deallocate b])"
proof -
  define n where "n = vsize this"
  define xs1 where "xs1 = take p xs"
  define xs2 where "xs2 = drop p xs"
  define h1 where "h1 = upd_block b (replicate c None) [Allocate b c] (h\<lparr>next_addr := Suc b\<rparr>)"
  define nd where "nd = \<lparr>buffer = Some b, capacity = c\<rparr>"
  define body where "body = and_then (placement_new T (Some b, p) args h1) (\<lambda>_ h.
                      and_then (catch_rethrow
                                  (TransferDataSafely T (Some a, 0) p (Some b, 0) h)
                                  (destroy_at (Some b, p))) (\<lambda>_ h.
                      and_then (catch_rethrow
                                  (TransferDataSafely T (Some a, p) (vsize this - p) (Some b, Suc p) h)
                                  (destroy_n (Some b, 0) (Suc p))) (\<lambda>_ h.
                      destroy_n (Some a, 0) (vsize this) h)))"
  note unf = Emplace_grow_unfold[OF full a p, where T = T and args = args and h = h,
      folded b_def c_def, folded nd_def h1_def, folded body_def]
  have ba: "blocks h a = Some (map Some xs)" and lx: "length xs = n"
    using vec_ok_block[OF ok a] full by (simp_all add: xs_def Capacity_def n_def)
  have pn: "p < n" using p by (simp add: n_def)
  have ab: "a \<noteq> b" using ba fresh by (auto simp: b_def)
  have x12: "xs = xs1 @ xs2" "length xs1 = p" "length xs2 = n - p" "set xs = set xs1 \<union> set xs2"
    using pn lx by (auto simp: xs1_def xs2_def) (metis Un_iff append_take_drop_id set_append)+
  have cn: "c = 2 * n" "c - Suc p = (n - p) + (c - Suc n)" "Suc p \<le> c" using pn by (simp_all add: c_def n_def)
  have bl0: "(blocks h)(b := None) = blocks h" using fresh by (auto simp: b_def fun_eq_iff)
  have gr: "grown h this = \<lparr>data = nd, vsize = vsize this + 1\<rparr>"
    using pn full by (simp add: grown_def nd_def b_def c_def n_def)
  let ?concl = ?thesis
  text \<open>What a throw out of the filling of the new buffer gives.\<close>
  have thrown: ?concl
    if "body = (Throw, hf)" "blocks hf b = Some (replicate c None)" "(blocks hf)(b := None) = blocks h"
      "released hf = released h" "trace hf @ [Deallocate b] = tr"
      "construct_from T args = None \<or> \<not> nothrow_move_constructible T \<and> (\<exists>y\<in>set xs. copy_throws T y)"
      "\<And>x ev. construct_from T args = Some (x, ev) \<Longrightarrow> \<exists>es. tr = trace h @ [Allocate b c, ev (Some b, p)] @ es"
      "\<And>x ev. construct_from T args = Some (x, ev) \<Longrightarrow> \<exists>y\<in>set xs1. copy_throws T y \<Longrightarrow>
          tr = trace h @ [Allocate b c, ev (Some b, p)]
             @ map CopyConstruct (slots b 0 (length (takeWhile (\<lambda>y. \<not> copy_throws T y) xs1)))
             @ map Destroy (slots b 0 (length (takeWhile (\<lambda>y. \<not> copy_throws T y) xs1)))
             @ [Destroy (Some b, p), Deallocate b]"
      "\<And>x ev. construct_from T args = Some (x, ev) \<Longrightarrow> \<forall>y\<in>set xs1. \<not> copy_throws T y \<Longrightarrow>
          tr = trace h @ [Allocate b c, ev (Some b, p)]
             @ map CopyConstruct (slots b 0 p)
             @ map CopyConstruct (slots b (Suc p) (length (takeWhile (\<lambda>y. \<not> copy_throws T y) xs2)))
             @ map Destroy (slots b (Suc p) (length (takeWhile (\<lambda>y. \<not> copy_throws T y) xs2)))
             @ map Destroy (slots b 0 (Suc p)) @ [Deallocate b]"
    for hf tr
  proof -
    have e: "r = Throw" "this' = this"
      "h' = hf\<lparr>blocks := (blocks hf)(b := None), released := released hf @ [(b, replicate c None)],
               trace := trace hf @ [Deallocate b]\<rparr>"
      using unf(1)[OF that(1,2)] res by simp_all
    have tr: "trace h' = tr" "blocks h' = blocks h" "released h' = released h @ [(b, replicate c None)]"
      using that(3,4,5) by (simp_all add: e(3))
    show ?thesis
      unfolding tr e(1,2) xs1_def[symmetric] xs2_def[symmetric]
      using that(6,7,8,9) by auto
  qed
  text \<open>What a normal end of the filling gives.\<close>
  have filled: ?concl
    if "body = (Ok (), hf)" "construct_from T args = Some (x, ev)"
      "nothrow_move_constructible T \<or> (\<forall>y\<in>set xs. \<not> copy_throws T y)"
      "blocks hf b = Some (map Some (xs1 @ x # xs2) @ replicate (c - Suc n) None)"
      "trace hf = trace h @ [Allocate b c, ev (Some b, p)]
          @ map K (slots b 0 p) @ map K (slots b (Suc p) (n - p)) @ map Destroy (slots a 0 n)"
    for hf x ev
  proof -
    have e: "r = Ok (Some b, p)" "this' = \<lparr>data = nd, vsize = vsize this + 1\<rparr>" "h' = hf"
      using unf(2)[OF that(1)] res by simp_all
    have v: "vec_ok hf \<lparr>data = nd, vsize = vsize this + 1\<rparr>"
      "elems hf \<lparr>data = nd, vsize = vsize this + 1\<rparr> = xs1 @ x # xs2"
      using vec_okI[of "\<lparr>data = nd, vsize = vsize this + 1\<rparr>" b hf "xs1 @ x # xs2" "c - Suc n"]
        that(4) x12(2,3) pn cn(1)
      by (simp_all add: nd_def n_def)
    show ?thesis
      unfolding e gr xs1_def[symmetric] xs2_def[symmetric]
      using that(2,3,5) v x12(4) by (auto simp: n_def)
  qed
  have "(replicate c None :: 'a option list) = replicate p None @ None # replicate (c - Suc p) None"
    using cn(3) by (intro replicate_split) simp
  then have b1: "blocks h1 b = Some (replicate p None @ None # replicate (c - Suc p) None)"
    by (simp add: h1_def)
  have r1: "released h1 = released h" "blocks h1 a = Some (map Some xs)" "(blocks h1)(b := None) = blocks h"
    "trace h1 = trace h @ [Allocate b c]"
    using ab ba bl0 by (simp_all add: h1_def)
  show ?thesis
  proof (cases "construct_from T args")
    case None
    have bd: "body = (Throw, h1)" by (simp add: body_def placement_new_def None)
    show ?thesis
      by (rule thrown[OF bd, where tr = "trace h1 @ [Deallocate b]"])
         (use r1 in \<open>simp_all add: None h1_def\<close>)
  next
    case (Some xe)
    obtain x ev where xe: "xe = (x, ev)" by (cases xe)
    have cf: "construct_from T args = Some (x, ev)" using Some xe by simp
    define rest where "rest = (replicate (c - Suc n) None :: 'a option list)"
    define h2 where "h2 = upd_block b (replicate p None @ Some x # replicate (c - Suc p) None)
                            [ev (Some b, p)] h1"
    have c1: "placement_new T (Some b, p) args h1 = (Ok (), h2)"
      using construct_at_block[OF b1, of ev x] by (simp add: placement_new_def cf h2_def)
    have s2: "blocks h2 a = Some ([] @ map Some xs1 @ map Some xs2)"
      using ab r1(2) x12(1) by (simp add: h2_def)
    have d2: "blocks h2 b = Some ([] @ replicate (length xs1) None @ Some x # replicate (c - Suc p) None)"
      by (simp add: h2_def x12(2))
    note tr1 = TransferDataSafely_block[OF s2 d2 ab T, unfolded x12(2), simplified]
    have r2: "released h2 = released h" "(blocks h2)(b := None) = blocks h"
      "trace h2 = trace h @ [Allocate b c, ev (Some b, p)]"
      using r1 by (simp_all add: h2_def)
    have rsplit: "replicate (c - Suc p) None = replicate (length xs2) None @ rest"
      using cn(2) x12(3) by (simp add: rest_def replicate_add[symmetric])
    show ?thesis
    proof (cases "nothrow_move_constructible T")
      case nt: True
      define h3 where "h3 = upd_block b (map Some xs1 @ Some x # replicate (c - Suc p) None)
          (map MoveConstruct (slots b 0 p))
          (upd_block a (map (\<lambda>x. Some (moved_from T x)) xs1 @ map Some xs2) [] h2)"
      have t1: "TransferDataSafely T (Some a, 0) p (Some b, 0) h2 = (Ok (), h3)"
        using tr1 nt by (simp add: h3_def)
      have s3: "blocks h3 a = Some (map (\<lambda>x. Some (moved_from T x)) xs1 @ map Some xs2 @ [])"
        using ab by (simp add: h3_def)
      have d3: "blocks h3 b = Some ((map Some xs1 @ [Some x]) @ replicate (length xs2) None @ rest)"
        by (simp add: h3_def rsplit)
      define h4 where "h4 = upd_block b ((map Some xs1 @ [Some x]) @ map Some xs2 @ rest)
          (map MoveConstruct (slots b (Suc p) (n - p)))
          (upd_block a (map (\<lambda>x. Some (moved_from T x)) xs1 @ map (\<lambda>x. Some (moved_from T x)) xs2) [] h3)"
      have t2: "TransferDataSafely T (Some a, p) (n - p) (Some b, Suc p) h3 = (Ok (), h4)"
        using TransferDataSafely_block[OF s3 d3 ab T] nt x12(2,3) by (simp add: h4_def)
      have s4: "blocks h4 a = Some ([] @ map Some (map (moved_from T) xs) @ [])"
        using ab x12(1) by (simp add: h4_def comp_def)
      define h5 where "h5 = upd_block a (replicate n None) (map Destroy (slots a 0 n)) h4"
      have t3: "destroy_n (Some a, 0) n h4 = (Ok (), h5)"
        using destroy_n_block[OF s4] lx by (simp add: h5_def)
      have bd: "body = (Ok (), h5)"
        by (simp add: body_def c1 t1 t2 t3 n_def[symmetric])
      show ?thesis
        by (rule filled[OF bd cf])
           (use nt ab r2 in \<open>simp_all add: h5_def h4_def h3_def rest_def K_def\<close>)
    next
      case nt: False
      show ?thesis
      proof (cases "\<forall>y\<in>set xs1. \<not> copy_throws T y")
        case pf: False
        define k where "k = length (takeWhile (\<lambda>y. \<not> copy_throws T y) xs1)"
        define h3 where "h3 = upd_block b (replicate p None @ Some x # replicate (c - Suc p) None)
            (map CopyConstruct (slots b 0 k) @ map Destroy (slots b 0 k)) h2"
        have t1: "TransferDataSafely T (Some a, 0) p (Some b, 0) h2 = (Throw, h3)"
          using tr1 nt pf by (simp add: h3_def k_def)
        define h4 where "h4 = upd_block b (replicate p None @ None # replicate (c - Suc p) None)
            [Destroy (Some b, p)] h3"
        have b3: "blocks h3 b = Some (replicate p None @ Some x # replicate (c - Suc p) None)"
          by (simp add: h3_def)
        have t2: "destroy_at (Some b, p) h3 = (Ok (), h4)"
          using destroy_at_block[OF b3] by (simp add: h4_def)
        have bd: "body = (Throw, h4)" by (simp add: body_def c1 t1 t2)
        have "(replicate c None :: 'a option list) = replicate p None @ None # replicate (c - Suc p) None"
          using cn(3) by (intro replicate_split) simp
        then have b4: "blocks h4 b = Some (replicate c None)"
          by (simp add: h4_def)
        show ?thesis
          by (rule thrown[OF bd b4, where tr = "trace h4 @ [Deallocate b]"])
             (use nt pf r2 x12(4) cf in \<open>auto simp add: h4_def h3_def k_def\<close>)
      next
        case pf: True
        define h3 where "h3 = upd_block b (map Some xs1 @ Some x # replicate (c - Suc p) None)
            (map CopyConstruct (slots b 0 p)) h2"
        have t1: "TransferDataSafely T (Some a, 0) p (Some b, 0) h2 = (Ok (), h3)"
          using tr1 nt pf by (simp add: h3_def)
        have s3: "blocks h3 a = Some (map Some xs1 @ map Some xs2 @ [])"
          using ab s2 by (simp add: h3_def)
        have d3: "blocks h3 b = Some ((map Some xs1 @ [Some x]) @ replicate (length xs2) None @ rest)"
          by (simp add: h3_def rsplit)
        note tr2 = TransferDataSafely_block[OF s3 d3 ab T, unfolded x12(2,3), simplified]
        show ?thesis
        proof (cases "\<forall>y\<in>set xs2. \<not> copy_throws T y")
          case sf: False
          define k where "k = length (takeWhile (\<lambda>y. \<not> copy_throws T y) xs2)"
          define h4 where "h4 = upd_block b ((map Some xs1 @ [Some x]) @ replicate (n - p) None @ rest)
              (map CopyConstruct (slots b (Suc p) k) @ map Destroy (slots b (Suc p) k)) h3"
          have t2: "TransferDataSafely T (Some a, p) (n - p) (Some b, Suc p) h3 = (Throw, h4)"
            using tr2 nt sf x12(2) by (simp add: h4_def k_def)
          have b4: "blocks h4 b = Some ([] @ map Some (xs1 @ [x]) @ replicate (n - p) None @ rest)"
            by (simp add: h4_def)
          define h5 where "h5 = upd_block b ([] @ replicate (length (xs1 @ [x])) None @ replicate (n - p) None @ rest)
              (map Destroy (slots b 0 (length (xs1 @ [x])))) h4"
          have t3: "destroy_n (Some b, 0) (Suc p) h4 = (Ok (), h5)"
            using destroy_n_block[OF b4] x12(2) by (simp add: h5_def)
          have bd: "body = (Throw, h5)"
            by (simp add: body_def c1 t1 t2 t3 n_def[symmetric] del: destroy_n.simps)
          have "Suc p + (n - p) + (c - Suc n) = c" using pn cn(1) by simp
          then have "replicate (Suc p) None @ replicate (n - p) None @ rest = (replicate c None :: 'a option list)"
            unfolding rest_def replicate_add[symmetric] by (simp add: add.assoc)
          then have b5: "blocks h5 b = Some (replicate c None)"
            using x12(2) by (simp add: h5_def)
          show ?thesis
            by (rule thrown[OF bd b5, where tr = "trace h5 @ [Deallocate b]"])
               (use nt pf sf r2 x12(2,4) cf in \<open>auto simp add: h5_def h4_def h3_def k_def\<close>)
        next
          case sf: True
          define h4 where "h4 = upd_block b ((map Some xs1 @ [Some x]) @ map Some xs2 @ rest)
              (map CopyConstruct (slots b (Suc p) (n - p))) h3"
          have t2: "TransferDataSafely T (Some a, p) (n - p) (Some b, Suc p) h3 = (Ok (), h4)"
            using tr2 nt sf x12(2) by (simp add: h4_def)
          have s4: "blocks h4 a = Some ([] @ map Some xs @ [])"
            using ab s3 x12(1) by (simp add: h4_def)
          define h5 where "h5 = upd_block a (replicate n None) (map Destroy (slots a 0 n)) h4"
          have t3: "destroy_n (Some a, 0) n h4 = (Ok (), h5)"
            using destroy_n_block[OF s4] lx by (simp add: h5_def)
          have bd: "body = (Ok (), h5)"
            by (simp add: body_def c1 t1 t2 t3 n_def[symmetric])
          show ?thesis
            by (rule filled[OF bd cf])
               (use nt pf sf ab r2 x12(4) in \<open>auto simp add: h5_def h4_def h3_def rest_def K_def\<close>)
        qed
      qed
    qed
  qed
qed

theorem Emplace_growth_rollback_witness:
  "elem_ok T_int \<and> elem_ok (T_copy_throws_on 3) \<and> elem_ok (T_copy_throws_on 4)
   \<and> vec_ok heap1234 vec1234 \<and> blocks heap1234 (next_addr heap1234) = None
   \<and> vsize vec1234 = Capacity vec1234 \<and> buffer (data vec1234) = Some 0 \<and> 3 < vsize vec1234
   \<and> elems heap1234 vec1234 = [1, 2, 3, 4]
   \<and> fst (insert_at 1 T_int) = Ok (Some 1, 1)
   \<and> elems (snd (snd (insert_at 1 T_int))) (fst (snd (insert_at 1 T_int))) = [1, 9, 2, 3, 4]
   \<and> (\<exists>es. trace (snd (snd (insert_at 1 T_int)))
         = [Allocate 1 8, CopyConstruct (Some 1, 1), MoveConstruct (Some 1, 0),
            MoveConstruct (Some 1, 2), MoveConstruct (Some 1, 3), MoveConstruct (Some 1, 4),
            Destroy (Some 0, 0), Destroy (Some 0, 1), Destroy (Some 0, 2), Destroy (Some 0, 3)] @ es)
   \<and> fst (insert_at 3 (T_copy_throws_on 3)) = Throw
   \<and> fst (snd (insert_at 3 (T_copy_throws_on 3))) = vec1234
   \<and> blocks (snd (snd (insert_at 3 (T_copy_throws_on 3)))) = blocks heap1234
   \<and> released (snd (snd (insert_at 3 (T_copy_throws_on 3)))) = [(1, replicate 8 None)]
   \<and> trace (snd (snd (insert_at 3 (T_copy_throws_on 3))))
       = [Allocate 1 8, CopyConstruct (Some 1, 3), CopyConstruct (Some 1, 0), CopyConstruct (Some 1, 1),
          Destroy (Some 1, 0), Destroy (Some 1, 1), Destroy (Some 1, 3), Deallocate 1]
   \<and> fst (insert_at 1 (T_copy_throws_on 4)) = Throw
   \<and> blocks (snd (snd (insert_at 1 (T_copy_throws_on 4)))) = blocks heap1234
   \<and> trace (snd (snd (insert_at 1 (T_copy_throws_on 4))))
       = [Allocate 1 8, CopyConstruct (Some 1, 1), CopyConstruct (Some 1, 0),
          CopyConstruct (Some 1, 2), CopyConstruct (Some 1, 3),
          Destroy (Some 1, 2), Destroy (Some 1, 3),
          Destroy (Some 1, 0), Destroy (Some 1, 1), Deallocate 1]"
proof -
  have T: "elem_ok T_int" "elem_ok (T_copy_throws_on 3)" "elem_ok (T_copy_throws_on 4)"
    "copy_constructible T_int \<or> nothrow_move_constructible T_int"
    "copy_constructible (T_copy_throws_on 3) \<or> nothrow_move_constructible (T_copy_throws_on 3)"
    "copy_constructible (T_copy_throws_on 4) \<or> nothrow_move_constructible (T_copy_throws_on 4)"
    by (simp_all add: elem_ok_def T_int_def T_copy_throws_on_def)
  have v: "vec_ok heap1234 vec1234" "blocks heap1234 (next_addr heap1234) = None"
    "vsize vec1234 = Capacity vec1234" "buffer (data vec1234) = Some 0"
    by (simp_all add: vec_ok_def heap1234_def vec1234_def heap_of_def vec_at0_def Capacity_def)
  have p: "1 < vsize vec1234" "3 < vsize vec1234" by (simp_all add: vec1234_def vec_at0_def)
  have e: "elems heap1234 vec1234 = [1, 2, 3, 4]" "next_addr heap1234 = 1" "vsize vec1234 = 4"
    "trace heap1234 = []" "released heap1234 = []"
    by (simp_all add: elems_def heap1234_def vec1234_def heap_of_def vec_at0_def)
  have c: "construct_from T_int (Lvalue 9) = Some (9, CopyConstruct)"
    "construct_from (T_copy_throws_on 3) (Lvalue 9) = Some (9, CopyConstruct)"
    "construct_from (T_copy_throws_on 4) (Lvalue 9) = Some (9, CopyConstruct)"
    "nothrow_move_constructible T_int" "\<not> nothrow_move_constructible (T_copy_throws_on 3)"
    "\<not> nothrow_move_constructible (T_copy_throws_on 4)"
    "copy_throws (T_copy_throws_on 3) = (\<lambda>x. x = 3)" "copy_throws (T_copy_throws_on 4) = (\<lambda>x. x = 4)"
    by (simp_all add: construct_from_def T_int_def T_copy_throws_on_def)
  have sl: "slots d i (numeral k) = (Some d, i) # slots d (Suc i) (pred_numeral k)" for d i k
    by (simp add: numeral_eq_Suc)
  have r: "insert_at p T = (fst (insert_at p T), fst (snd (insert_at p T)), snd (snd (insert_at p T)))" for p T
    by simp
  note i1 = Emplace_growth_rollback[OF T(1) T(4) v p(1) r[of 1 T_int, unfolded insert_at_def],
      folded insert_at_def, unfolded e c]
  note i2 = Emplace_growth_rollback[OF T(2) T(5) v p(2) r[of 3 "T_copy_throws_on 3", unfolded insert_at_def],
      folded insert_at_def, unfolded e c]
  note i3 = Emplace_growth_rollback[OF T(3) T(6) v p(1) r[of 1 "T_copy_throws_on 4", unfolded insert_at_def],
      folded insert_at_def, unfolded e c]
  note B1 = i1[THEN conjunct2, THEN conjunct1]
  note D1 = i1[THEN conjunct2, THEN conjunct2, THEN conjunct2, THEN conjunct1, rule_format]
  from B1 c(4) have n1: "fst (insert_at 1 T_int) \<noteq> Throw" by simp
  have 1: "fst (insert_at 1 T_int) = Ok (Some 1, 1)"
    "elems (snd (snd (insert_at 1 T_int))) (fst (snd (insert_at 1 T_int))) = [1, 9, 2, 3, 4]"
    "\<exists>es. trace (snd (snd (insert_at 1 T_int)))
         = [Allocate 1 8, CopyConstruct (Some 1, 1), MoveConstruct (Some 1, 0),
            MoveConstruct (Some 1, 2), MoveConstruct (Some 1, 3), MoveConstruct (Some 1, 4),
            Destroy (Some 0, 0), Destroy (Some 0, 1), Destroy (Some 0, 2), Destroy (Some 0, 3)] @ es"
    using D1[OF n1] c(4) by (auto simp add: sl)
  note B2 = i2[THEN conjunct2, THEN conjunct1]
  note C2 = i2[THEN conjunct2, THEN conjunct2, THEN conjunct1, rule_format]
  note E2 = i2[THEN conjunct2, THEN conjunct2, THEN conjunct2, THEN conjunct2, THEN conjunct1,
      rule_format, of 9 CopyConstruct]
  from B2 c(5) have t2: "fst (insert_at 3 (T_copy_throws_on 3)) = Throw" by simp
  have 2: "fst (insert_at 3 (T_copy_throws_on 3)) = Throw"
    "fst (snd (insert_at 3 (T_copy_throws_on 3))) = vec1234"
    "blocks (snd (snd (insert_at 3 (T_copy_throws_on 3)))) = blocks heap1234"
    "released (snd (snd (insert_at 3 (T_copy_throws_on 3)))) = [(1, replicate 8 None)]"
    using C2[OF t2] t2 by auto
  have tr2: "trace (snd (snd (insert_at 3 (T_copy_throws_on 3))))
       = [Allocate 1 8, CopyConstruct (Some 1, 3), CopyConstruct (Some 1, 0), CopyConstruct (Some 1, 1),
          Destroy (Some 1, 0), Destroy (Some 1, 1), Destroy (Some 1, 3), Deallocate 1]"
    using E2 c(5) by (simp add: sl)
  note B3 = i3[THEN conjunct2, THEN conjunct1]
  note C3 = i3[THEN conjunct2, THEN conjunct2, THEN conjunct1, rule_format]
  note F3 = i3[THEN conjunct2, THEN conjunct2, THEN conjunct2, THEN conjunct2, THEN conjunct2,
      rule_format, of 9 CopyConstruct]
  from B3 c(6) have t3: "fst (insert_at 1 (T_copy_throws_on 4)) = Throw" by simp
  have 3: "fst (insert_at 1 (T_copy_throws_on 4)) = Throw"
    "blocks (snd (snd (insert_at 1 (T_copy_throws_on 4)))) = blocks heap1234"
    using C3[OF t3] t3 by auto
  have tr3: "trace (snd (snd (insert_at 1 (T_copy_throws_on 4))))
       = [Allocate 1 8, CopyConstruct (Some 1, 1), CopyConstruct (Some 1, 0),
          CopyConstruct (Some 1, 2), CopyConstruct (Some 1, 3),
          Destroy (Some 1, 2), Destroy (Some 1, 3),
          Destroy (Some 1, 0), Destroy (Some 1, 1), Deallocate 1]"
    using F3 c(6) by (simp add: sl)
  show ?thesis using T(1-3) v p(2) e(1) 1 2 tr2 3 tr3 by simp
qed

text \<open>
  Claim C3, as stated, fails: for the move-only element type whose move constructor
  throws on 2, \<open>Emplace\<close> at position 1 of the full vector \<open>[1, 2]\<close> moves the prefix
  element 1 to the new buffer, the move of the suffix element 2 throws, and the old
  buffer is left holding \<open>[0, 2]\<close>: it is not untouched.
\<close>

theorem Emplace_growth_move_only_counterexample:
  "vec_ok heap12 vec12 \<and> vsize vec12 = Capacity vec12
   \<and> elems heap12 vec12 = [1, 2]
   \<and> fst (insert_mid_rvalue (T_move_only 2)) = Throw
   \<and> blocks heap12 0 = Some [Some 1, Some 2]
   \<and> blocks (snd (snd (insert_mid_rvalue (T_move_only 2)))) 0 = Some [Some 0, Some 2]
   \<and> elems (snd (snd (insert_mid_rvalue (T_move_only 2)))) (fst (snd (insert_mid_rvalue (T_move_only 2))))
       = [0, 2]"
  by code_simp

subsection \<open>Copy assignment\<close>

lemma slots_upt: "slots d i n = map (\<lambda>k. (Some d, k)) [i..<i + n]"
proof (induction n arbitrary: i)
  case 0
  then show ?case by simp
next
  case (Suc n)
  have "[i..<i + Suc n] = i # [Suc i..<Suc i + n]" by (simp add: upt_rec)
  then show ?case using Suc.IH[of "Suc i"] by simp
qed

lemma copy_assign_at_block:
  assumes "blocks h s = Some (spre @ Some x # spost)" "blocks h d = Some (dpre @ Some y # dpost)"
    and "\<not> copy_assign_throws T x"
  shows "copy_assign_at T (Some d, length dpre) (Some s, length spre) h =
    (Ok (), upd_block d (dpre @ Some x # dpost) [CopyAssign (Some d, length dpre)] h)"
  using assms by (simp add: copy_assign_at_def slot_def store_def log_def upd_block_def)

lemma copy_n_block:
  assumes "blocks h s = Some (spre @ map Some xs @ spost)"
    and "blocks h d = Some (dpre @ map Some ys @ dpost)" and "length ys = length xs"
    and "s \<noteq> d" and "\<forall>x\<in>set xs. \<not> copy_assign_throws T x"
  shows "copy_n T (Some s, length spre) (length xs) (Some d, length dpre) h =
    (Ok (), upd_block d (dpre @ map Some xs @ dpost)
              (map CopyAssign (slots d (length dpre) (length xs))) h)"
  using assms
proof (induction xs arbitrary: ys spre dpre h)
  case Nil
  then show ?case by (simp add: upd_block_same)
next
  case (Cons x xs)
  obtain y ys' where ys: "ys = y # ys'" using Cons.prems(3) by (cases ys) auto
  let ?h1 = "upd_block d (dpre @ Some x # map Some ys' @ dpost) [CopyAssign (Some d, length dpre)] h"
  have c1: "copy_assign_at T (Some d, length dpre) (Some s, length spre) h = (Ok (), ?h1)"
    using copy_assign_at_block[of h s spre x "map Some xs @ spost" d dpre y "map Some ys' @ dpost" T]
      Cons.prems ys by simp
  have bs: "blocks ?h1 s = Some ((spre @ [Some x]) @ map Some xs @ spost)"
    using Cons.prems(1,4) by simp
  have bd: "blocks ?h1 d = Some ((dpre @ [Some x]) @ map Some ys' @ dpost)" by simp
  have l: "length ys' = length xs" using Cons.prems(3) ys by simp
  have nt: "\<forall>x\<in>set xs. \<not> copy_assign_throws T x" using Cons.prems(5) by simp
  show ?case
    using Cons.IH[OF bs bd l Cons.prems(4) nt] by (simp add: c1 ptr_add_def)
qed

text \<open>The copy constructor, for a source that is not empty.\<close>

lemma Vector_copy_ctor_block:
  assumes ok: "vec_ok h other" and s: "buffer (data other) = Some s" and m: "0 < vsize other"
    and fresh: "blocks h (next_addr h) = None"
  defines "b \<equiv> next_addr h" and "m \<equiv> vsize other" and "ys \<equiv> elems h other"
  shows "Vector_copy_ctor T other h =
    (if \<forall>y\<in>set ys. \<not> copy_throws T y
     then (Ok \<lparr>data = \<lparr>buffer = Some b, capacity = m\<rparr>, vsize = m\<rparr>,
           upd_block b (map Some ys) (Allocate b m # map CopyConstruct (slots b 0 m))
             (h\<lparr>next_addr := Suc b\<rparr>))
     else (Throw, h\<lparr>next_addr := Suc b, released := released h @ [(b, replicate m None)],
                     trace := trace h @ Allocate b m
                        # map CopyConstruct (slots b 0 (length (takeWhile (\<lambda>y. \<not> copy_throws T y) ys)))
                        @ map Destroy (slots b 0 (length (takeWhile (\<lambda>y. \<not> copy_throws T y) ys)))
                        @ [Deallocate b]\<rparr>))"
proof -
  define k where "k = capacity (data other) - m"
  define h1 where "h1 = upd_block b (replicate m None) [Allocate b m] (h\<lparr>next_addr := Suc b\<rparr>)"
  have bs: "blocks h s = Some (map Some ys @ replicate k None)" and ly: "length ys = m"
    using vec_ok_block[OF ok s] by (simp_all add: ys_def k_def m_def)
  have m0: "m \<noteq> 0" using m by (simp add: m_def)
  have rs: "RawMemory_sized m h = (\<lparr>buffer = Some b, capacity = m\<rparr>, h1)"
    using RawMemory_sized_fresh[OF m0, of h] by (simp add: h1_def b_def)
  have sb: "s \<noteq> b" using bs fresh by (auto simp: b_def)
  have s1: "blocks h1 s = Some ([] @ map Some ys @ replicate k None)" using sb bs by (simp add: h1_def)
  have d1: "blocks h1 b = Some ([] @ replicate (length ys) None @ [])" by (simp add: h1_def ly)
  note uc = uninitialized_copy_n_block[OF s1 d1 sb, of T, simplified, unfolded ly]
  have bl0: "(blocks h)(b := None) = blocks h" using fresh by (auto simp: b_def fun_eq_iff)
  show ?thesis
  proof (cases "\<forall>y\<in>set ys. \<not> copy_throws T y")
    case True
    then show ?thesis
      using uc by (simp add: Vector_copy_ctor_def rs GetAddress_def s m_def[symmetric] h1_def)
  next
    case False
    define kk where "kk = length (takeWhile (\<lambda>y. \<not> copy_throws T y) ys)"
    define h2 where "h2 = upd_block b (replicate m None)
        (map CopyConstruct (slots b 0 kk) @ map Destroy (slots b 0 kk)) h1"
    have u: "uninitialized_copy_n T (Some s, 0) m (Some b, 0) h1 = (Throw, h2)"
      using uc False by (simp add: h2_def kk_def)
    have b2: "blocks h2 b = Some (replicate m None)" by (simp add: h2_def)
    have dt: "RawMemory_dtor \<lparr>buffer = Some b, capacity = m\<rparr> h2 =
       (Ok (), h2\<lparr>blocks := (blocks h2)(b := None), released := released h2 @ [(b, replicate m None)],
                  trace := trace h2 @ [Deallocate b]\<rparr>)"
      using Deallocate_raw_block[OF b2] by (simp add: RawMemory_dtor_def)
    have "h2\<lparr>blocks := (blocks h2)(b := None), released := released h2 @ [(b, replicate m None)],
                  trace := trace h2 @ [Deallocate b]\<rparr>
        = h\<lparr>next_addr := Suc b, released := released h @ [(b, replicate m None)],
                     trace := trace h @ Allocate b m # map CopyConstruct (slots b 0 kk)
                        @ map Destroy (slots b 0 kk) @ [Deallocate b]\<rparr>"
      using bl0 by (simp add: h2_def h1_def upd_block_def)
    then show ?thesis
      using False u dt
      by (simp add: Vector_copy_ctor_def rs GetAddress_def s m_def[symmetric] kk_def)
  qed
qed

text \<open>The destructor of a valid vector.\<close>

lemma Vector_dtor_block:
  assumes ok: "vec_ok h this" and a: "buffer (data this) = Some a"
  shows "Vector_dtor this h =
    (Ok (), h\<lparr>blocks := (blocks h)(a := None),
              released := released h @ [(a, replicate (capacity (data this)) None)],
              trace := trace h @ map Destroy (slots a 0 (vsize this)) @ [Deallocate a]\<rparr>)"
proof -
  define xs where "xs = elems h this"
  define k where "k = capacity (data this) - vsize this"
  have b: "blocks h a = Some ([] @ map Some xs @ replicate k None)" and lx: "length xs = vsize this"
    using vec_ok_block[OF ok a] by (simp_all add: xs_def k_def)
  have le: "vsize this \<le> capacity (data this)" using ok by (simp add: vec_ok_def)
  define h1 where "h1 = upd_block a (replicate (vsize this) None @ replicate k None)
                           (map Destroy (slots a 0 (vsize this))) h"
  have d: "destroy_n (Some a, 0) (vsize this) h = (Ok (), h1)"
    using destroy_n_block[OF b] lx by (simp add: h1_def)
  have b1: "blocks h1 a = Some (replicate (capacity (data this)) None)"
    using le by (simp add: h1_def k_def replicate_add[symmetric])
  show ?thesis
    using Deallocate_raw_block[OF b1]
    by (simp add: Vector_dtor_def GetAddress_def a d RawMemory_dtor_def) (simp add: h1_def upd_block_def)
qed

lemma Vector_dtor_null:
  assumes ok: "vec_ok h this" and a: "buffer (data this) = None"
  shows "Vector_dtor this h = (Ok (), h)"
  using vec_ok_null[OF ok a]
  by (simp add: Vector_dtor_def GetAddress_def a RawMemory_dtor_def Deallocate_raw_def)


lemma vec_ok_cong:
  fixes h h' :: "'a heap"
  assumes "buffer (data v) = Some a" "blocks h' a = blocks h a"
  shows "vec_ok h' v = vec_ok h v" "elems h' v = elems h v"
  using assms by (simp_all add: vec_ok_def elems_def)

lemma vec_ok_null_any:
  fixes h h' :: "'a heap"
  assumes "buffer (data v) = None"
  shows "vec_ok h' v = vec_ok h v" "elems h' v = elems h v"
  using assms by (simp_all add: vec_ok_def elems_def)

lemma Vector_eta: "\<lparr>data = data v, vsize = vsize v\<rparr> = (v :: Vector)"
  by simp

text \<open>Copy assignment when the source is longer than the capacity: copy, swap, destroy.\<close>

lemma Vector_copy_assign_realloc:
  fixes this rhs :: Vector and h :: "'a heap"
  defines "b \<equiv> next_addr h" and "m \<equiv> vsize rhs" and "ys \<equiv> elems h rhs"
  assumes okt: "vec_ok h this" and okr: "vec_ok h rhs"
    and fresh: "blocks h (next_addr h) = None"
    and big: "capacity (data this) < vsize rhs"
    and res: "Vector_copy_assign T this rhs h = (r, this', h')"
  shows "(r = Throw) = (\<exists>y\<in>set ys. copy_throws T y)"
    and "r = Throw \<Longrightarrow> this' = this \<and> blocks h' = blocks h"
    and "r \<noteq> Throw \<Longrightarrow> r = Ok () \<and> this' = \<lparr>data = \<lparr>buffer = Some b, capacity = m\<rparr>, vsize = m\<rparr>
          \<and> blocks h' b = Some (map Some ys)
          \<and> (\<forall>c. c \<noteq> b \<and> Some c \<noteq> buffer (data this) \<longrightarrow> blocks h' c = blocks h c)
          \<and> trace h' = trace h @ Allocate b m # map CopyConstruct (slots b 0 m)
               @ map (\<lambda>k. Destroy (buffer (data this), k)) [0..<vsize this]
               @ (case buffer (data this) of None \<Rightarrow> [] | Some a \<Rightarrow> [Deallocate a])"
proof -
  have m0: "0 < vsize rhs" using big by simp
  obtain s where s: "buffer (data rhs) = Some s"
    using vec_ok_null(2)[OF okr] m0 by (cases "buffer (data rhs)") auto
  note cc = Vector_copy_ctor_block[OF okr s m0 fresh, of T, folded b_def m_def ys_def]
  have bl0: "(blocks h)(b := None) = blocks h" using fresh by (auto simp: b_def fun_eq_iff)
  show "(r = Throw) = (\<exists>y\<in>set ys. copy_throws T y)"
    "r = Throw \<Longrightarrow> this' = this \<and> blocks h' = blocks h"
    "r \<noteq> Throw \<Longrightarrow> r = Ok () \<and> this' = \<lparr>data = \<lparr>buffer = Some b, capacity = m\<rparr>, vsize = m\<rparr>
          \<and> blocks h' b = Some (map Some ys)
          \<and> (\<forall>c. c \<noteq> b \<and> Some c \<noteq> buffer (data this) \<longrightarrow> blocks h' c = blocks h c)
          \<and> trace h' = trace h @ Allocate b m # map CopyConstruct (slots b 0 m)
               @ map (\<lambda>k. Destroy (buffer (data this), k)) [0..<vsize this]
               @ (case buffer (data this) of None \<Rightarrow> [] | Some a \<Rightarrow> [Deallocate a])"
  proof (atomize (full), cases "\<forall>y\<in>set ys. \<not> copy_throws T y")
    case False
    then show "((r = Throw) = (\<exists>y\<in>set ys. copy_throws T y)) \<and>
      (r = Throw \<longrightarrow> this' = this \<and> blocks h' = blocks h) \<and>
      (r \<noteq> Throw \<longrightarrow> r = Ok () \<and> this' = \<lparr>data = \<lparr>buffer = Some b, capacity = m\<rparr>, vsize = m\<rparr>
          \<and> blocks h' b = Some (map Some ys)
          \<and> (\<forall>c. c \<noteq> b \<and> Some c \<noteq> buffer (data this) \<longrightarrow> blocks h' c = blocks h c)
          \<and> trace h' = trace h @ Allocate b m # map CopyConstruct (slots b 0 m)
               @ map (\<lambda>k. Destroy (buffer (data this), k)) [0..<vsize this]
               @ (case buffer (data this) of None \<Rightarrow> [] | Some a \<Rightarrow> [Deallocate a]))"
    proof -
      obtain hT where c: "Vector_copy_ctor T rhs h = (Throw, hT)" and bT: "blocks hT = blocks h"
        using cc False by simp
      have "Vector_copy_assign T this rhs h = (Throw, this, hT)"
        using big by (simp add: Vector_copy_assign_def c)
      then have "r = Throw" "this' = this" "h' = hT" using res by simp_all
      then show ?thesis using False bT by simp
    qed
  next
    case True
    define h2 where "h2 = upd_block b (map Some ys) (Allocate b m # map CopyConstruct (slots b 0 m))
             (h\<lparr>next_addr := Suc b\<rparr>)"
    have c: "Vector_copy_ctor T rhs h = (Ok \<lparr>data = \<lparr>buffer = Some b, capacity = m\<rparr>, vsize = m\<rparr>, h2)"
      using cc True by (simp add: h2_def)
    have e: "Vector_copy_assign T this rhs h =
       (case Vector_dtor this h2 of (r, h3) \<Rightarrow> (r, \<lparr>data = \<lparr>buffer = Some b, capacity = m\<rparr>, vsize = m\<rparr>, h3))"
      using big by (simp add: Vector_copy_assign_def c Vector_Swap_def RawMemory_Swap_def
          Vector_overwrite Vector_eta)
    show "((r = Throw) = (\<exists>y\<in>set ys. copy_throws T y)) \<and>
      (r = Throw \<longrightarrow> this' = this \<and> blocks h' = blocks h) \<and>
      (r \<noteq> Throw \<longrightarrow> r = Ok () \<and> this' = \<lparr>data = \<lparr>buffer = Some b, capacity = m\<rparr>, vsize = m\<rparr>
          \<and> blocks h' b = Some (map Some ys)
          \<and> (\<forall>c. c \<noteq> b \<and> Some c \<noteq> buffer (data this) \<longrightarrow> blocks h' c = blocks h c)
          \<and> trace h' = trace h @ Allocate b m # map CopyConstruct (slots b 0 m)
               @ map (\<lambda>k. Destroy (buffer (data this), k)) [0..<vsize this]
               @ (case buffer (data this) of None \<Rightarrow> [] | Some a \<Rightarrow> [Deallocate a]))"
    proof (cases "buffer (data this)")
      case None
      have ok2: "vec_ok h2 this" using okt by (simp add: vec_ok_def None)
      have z: "vsize this = 0" using vec_ok_null(2)[OF okt None] .
      show ?thesis
        using res True unfolding e Vector_dtor_null[OF ok2 None]
        by (auto simp add: None z h2_def)
    next
      case (Some a)
      have ab: "a \<noteq> b" using vec_ok_block(1)[OF okt Some] fresh by (auto simp: b_def)
      have ok2: "vec_ok h2 this"
        using vec_ok_cong(1)[OF Some, of h2 h] okt ab by (simp add: h2_def)
      show ?thesis
        using res True ab unfolding e Vector_dtor_block[OF ok2 Some]
        by (auto simp add: Some h2_def slots_upt comp_def)
    qed
  qed
qed


text \<open>Copy assignment when the source fits into the capacity: the buffer is reused.\<close>

lemma Vector_copy_assign_inplace:
  fixes this rhs :: Vector and h :: "'a heap"
  defines "m \<equiv> vsize rhs" and "n \<equiv> vsize this" and "ys \<equiv> elems h rhs"
  assumes okt: "vec_ok h this" and okr: "vec_ok h rhs"
    and dist: "buffer (data this) \<noteq> buffer (data rhs) \<or> buffer (data this) = None"
    and fits: "vsize rhs \<le> capacity (data this)"
    and noA: "\<forall>y\<in>set (take n ys). \<not> copy_assign_throws T y"
    and noC: "\<forall>y\<in>set (drop n ys). \<not> copy_throws T y"
  shows "\<exists>h'. Vector_copy_assign T this rhs h = (Ok (), this\<lparr>vsize := m\<rparr>, h')
      \<and> elems h' (this\<lparr>vsize := m\<rparr>) = ys \<and> vec_ok h' (this\<lparr>vsize := m\<rparr>)
      \<and> (\<forall>c. Some c \<noteq> buffer (data this) \<longrightarrow> blocks h' c = blocks h c)
      \<and> trace h' = trace h @ map (\<lambda>k. CopyAssign (buffer (data this), k)) [0..<min n m]
           @ map (\<lambda>k. Destroy (buffer (data this), k)) [m..<n]
           @ map (\<lambda>k. CopyConstruct (buffer (data this), k)) [n..<m]"
proof (cases "buffer (data this)")
  case None
  have z: "capacity (data this) = 0" "n = 0" "m = 0"
    using vec_ok_null[OF okt None] fits by (simp_all add: n_def m_def)
  have ys: "ys = []" using okr z(3) by (auto simp: ys_def elems_def m_def split: option.splits)
  have e: "Vector_copy_assign T this rhs h = (Ok (), this\<lparr>vsize := m\<rparr>, h)"
    using z by (simp add: Vector_copy_assign_def n_def m_def)
  have "vec_ok h (this\<lparr>vsize := m\<rparr>)" "elems h (this\<lparr>vsize := m\<rparr>) = ys"
    using okt z None by (simp_all add: vec_ok_def elems_def ys)
  then show ?thesis using e z by (intro exI[of _ h]) simp
next
  case (Some a)
  define xs where "xs = elems h this"
  define k where "k = capacity (data this) - n"
  have ba: "blocks h a = Some (map Some xs @ replicate k None)" and lx: "length xs = n"
    using vec_ok_block[OF okt Some] by (simp_all add: xs_def k_def n_def)
  have le: "n \<le> capacity (data this)" using okt by (simp add: vec_ok_def n_def)
  have ly: "length ys = m"
    using okr by (cases "buffer (data rhs)")
      (auto simp: vec_ok_block(2) vec_ok_null ys_def m_def)
  have pa: "GetAddress (data this) = (Some a, 0)" by (simp add: GetAddress_def Some)
  text \<open>The facts about the final heap, from the final block and trace.\<close>
  have fin: ?thesis
    if "Vector_copy_assign T this rhs h = (Ok (), this\<lparr>vsize := m\<rparr>, hf)"
      "hf = upd_block a (map Some ys @ replicate (capacity (data this) - m) None) es h"
      "es = map (\<lambda>k. CopyAssign (Some a, k)) [0..<min n m]
           @ map (\<lambda>k. Destroy (Some a, k)) [m..<n]
           @ map (\<lambda>k. CopyConstruct (Some a, k)) [n..<m]" for hf es
  proof -
    have bf: "blocks hf a = Some (map Some ys @ replicate (capacity (data this) - m) None)"
      by (simp add: that(2))
    have v: "vec_ok hf (this\<lparr>vsize := m\<rparr>)" "elems hf (this\<lparr>vsize := m\<rparr>) = ys"
      using vec_okI[of "this\<lparr>vsize := m\<rparr>" a hf ys "capacity (data this) - m"] bf Some ly fits
        vec_ok_block(3)[OF okt Some]
      by (simp_all add: m_def)
    show ?thesis
      using that(1) v by (intro exI[of _ hf]) (simp add: that(2,3) Some)
  qed
  show ?thesis
  proof (cases "m < n")
    case shrink: True
    have xs: "xs = take m xs @ drop m xs" by simp
    have lt: "length (take m xs) = m" "length (drop m xs) = n - m" using shrink lx by simp_all
    have kk: "replicate (n - m) None @ replicate k None
               = (replicate (capacity (data this) - m) None :: 'a option list)"
      using shrink le by (simp add: k_def replicate_add[symmetric])
    have ta: "take n ys = ys" using ly shrink by simp
    obtain h1 where c1: "copy_n T (GetAddress (data rhs)) m (Some a, 0) h = (Ok (), h1)"
      and h1: "h1 = upd_block a (map Some ys @ map Some (drop m xs) @ replicate k None)
                      (map CopyAssign (slots a 0 m)) h"
    proof (cases "buffer (data rhs)")
      case None
      have z: "m = 0" "ys = []"
        using vec_ok_null[OF okr None] by (simp_all add: m_def ys_def)
      show ?thesis
        by (rule that[of h]) (use ba z in \<open>simp_all add: upd_block_same\<close>)
    next
      case (Some s)
      define ks where "ks = capacity (data rhs) - m"
      have bs: "blocks h s = Some ([] @ map Some ys @ replicate ks None)"
        using vec_ok_block(1)[OF okr Some] by (simp add: ys_def ks_def m_def)
      have sa: "s \<noteq> a" using dist Some \<open>buffer (data this) = Some a\<close> by auto
      have "map Some xs = map Some (take m xs) @ map Some (drop m xs)"
        by (metis append_take_drop_id map_append)
      then have bd: "blocks h a = Some ([] @ map Some (take m xs) @ map Some (drop m xs) @ replicate k None)"
        using ba by simp
      have l: "length (take m xs) = length ys" using lt ly by simp
      have nt: "\<forall>x\<in>set ys. \<not> copy_assign_throws T x" using noA ta by simp
      show ?thesis
        using copy_n_block[OF bs bd l sa nt]
        by (intro that) (simp_all add: GetAddress_def Some ly)
    qed
    have b1: "blocks h1 a = Some (map Some ys @ map Some (drop m xs) @ replicate k None)"
      by (simp add: h1)
    have d1: "destroy_n (Some a, m) (n - m) h1 =
        (Ok (), upd_block a (map Some ys @ replicate (n - m) None @ replicate k None)
                  (map Destroy (slots a m (n - m))) h1)"
      using destroy_n_block[OF b1] ly lt by simp
    have e: "Vector_copy_assign T this rhs h = (Ok (), this\<lparr>vsize := m\<rparr>,
        upd_block a (map Some ys @ replicate (capacity (data this) - m) None)
          (map CopyAssign (slots a 0 m) @ map Destroy (slots a m (n - m))) h)"
      using shrink fits c1 d1
      by (simp add: Vector_copy_assign_def m_def[symmetric] n_def[symmetric] pa ptr_add_def h1 kk)
    show ?thesis
      by (rule fin[OF e refl]) (use shrink in \<open>simp add: slots_upt comp_def min_def\<close>)
  next
    case grow: False
    show ?thesis
    proof (cases "m = 0")
      case True
      then have z: "n = 0" "ys = []" "xs = []" using grow ly lx by simp_all
      have e: "Vector_copy_assign T this rhs h = (Ok (), this\<lparr>vsize := m\<rparr>, h)"
        using z True fits by (simp add: Vector_copy_assign_def n_def[symmetric] m_def[symmetric])
      have "h = upd_block a (map Some ys @ replicate (capacity (data this) - m) None) [] h"
        using ba z True by (simp add: upd_block_same k_def)
      then show ?thesis
        by (rule fin[OF e]) (simp add: z True)
    next
      case False
      then have m0: "0 < vsize rhs" by (simp add: m_def)
      obtain s where s: "buffer (data rhs) = Some s"
        using vec_ok_null(2)[OF okr] m0 by (cases "buffer (data rhs)") auto
      define ks where "ks = capacity (data rhs) - m"
      define y1 where "y1 = take n ys"
      define y2 where "y2 = drop n ys"
      have y12: "ys = y1 @ y2" "length y1 = n" "length y2 = m - n"
        using grow ly by (simp_all add: y1_def y2_def)
      have bs: "blocks h s = Some ([] @ map Some y1 @ map Some y2 @ replicate ks None)"
        using vec_ok_block(1)[OF okr s] y12(1) by (simp add: ys_def[symmetric] ks_def m_def)
      have sa: "s \<noteq> a" using dist s Some by auto
      have bd: "blocks h a = Some ([] @ map Some xs @ replicate k None)" using ba by simp
      have l: "length xs = length y1" using lx y12 by simp
      have nt: "\<forall>x\<in>set y1. \<not> copy_assign_throws T x" using noA by (simp add: y1_def)
      define h1 where "h1 = upd_block a (map Some y1 @ replicate k None)
                      (map CopyAssign (slots a 0 n)) h"
      have c1: "copy_n T (Some s, 0) n (Some a, 0) h = (Ok (), h1)"
        using copy_n_block[OF bs bd l sa nt] y12(2) by (simp add: h1_def)
      have ksplit: "replicate k None = replicate (length y2) None
                      @ (replicate (capacity (data this) - m) None :: 'a option list)"
        using grow fits y12(3) by (simp add: k_def m_def[symmetric] replicate_add[symmetric])
      have s1: "blocks h1 s = Some (map Some y1 @ map Some y2 @ replicate ks None)"
        using sa bs by (simp add: h1_def)
      have d1: "blocks h1 a = Some (map Some y1 @ replicate (length y2) None
                   @ replicate (capacity (data this) - m) None)"
        by (simp add: h1_def ksplit)
      have nc: "\<forall>x\<in>set y2. \<not> copy_throws T x" using noC by (simp add: y2_def)
      define h2 where "h2 = upd_block a (map Some y1 @ map Some y2 @ replicate (capacity (data this) - m) None)
                      (map CopyConstruct (slots a n (m - n))) h1"
      have c2: "uninitialized_copy_n T (Some s, n) (m - n) (Some a, n) h1 = (Ok (), h2)"
        using uninitialized_copy_n_block[OF s1 d1 sa, of T] nc y12(2,3) by (simp add: h2_def)
      have e: "Vector_copy_assign T this rhs h = (Ok (), this\<lparr>vsize := m\<rparr>, h2)"
        using grow fits c1 c2
        by (simp add: Vector_copy_assign_def m_def[symmetric] n_def[symmetric] ptr_add_def
            GetAddress_def s \<open>buffer (data this) = Some a\<close>)
      show ?thesis
        by (rule fin[OF e, where es = "map CopyAssign (slots a 0 n) @ map CopyConstruct (slots a n (m - n))"])
           (use grow y12(1) in \<open>simp_all add: h2_def h1_def slots_upt comp_def min_def\<close>)
    qed
  qed
qed


lemma vec_ok_frame:
  fixes h h' :: "'a heap"
  assumes "vec_ok h v" "\<And>c. buffer (data v) = Some c \<Longrightarrow> blocks h' c = blocks h c"
  shows "vec_ok h' v" "elems h' v = elems h v"
  using assms by (cases "buffer (data v)"; simp add: vec_ok_def elems_def)+

lemma two_branches: "A \<Longrightarrow> \<not> Q \<Longrightarrow> (P \<longrightarrow> A) \<and> (Q \<and> R \<and> S \<longrightarrow> B)"
  by blast

lemma two_branches': "(R \<Longrightarrow> S \<Longrightarrow> B) \<Longrightarrow> \<not> P \<Longrightarrow> (P \<longrightarrow> A) \<and> (Q \<and> R \<and> S \<longrightarrow> B)"
  by blast

text \<open>
  Claim C6. Copy assignment between two different valid vectors. When the source is
  longer than the capacity of the target, a copy of the source is built in a new buffer
  and swapped in, and the old elements and buffer are destroyed and released; the call
  throws if and only if a copy throws, and then the target object and every block are as
  before. Otherwise the buffer is reused: the overlapping prefix is copy-assigned
  element by element, then the excess elements are destroyed (shrinking) or the
  additional ones copy-constructed (growing within the capacity). When the call returns
  normally the target holds the source's elements, in order, its length is the
  source's, and the source is unchanged.
\<close>

theorem copy_assignment:
  fixes objs :: "vref \<Rightarrow> Vector" and h :: "'a heap" and T :: "'a elem" and i j :: vref
  defines "this \<equiv> objs i" and "rhs \<equiv> objs j"
  defines "ys \<equiv> elems h rhs" and "n \<equiv> vsize this" and "m \<equiv> vsize rhs" and "b \<equiv> next_addr h"
  assumes ij: "i \<noteq> j" and okt: "vec_ok h this" and okr: "vec_ok h rhs"
    and dist: "buffer (data this) \<noteq> buffer (data rhs) \<or> buffer (data this) = None"
    and fresh: "blocks h (next_addr h) = None"
    and res: "assign_copy T i j (objs, h) = (r, objs', h')"
  shows "(Capacity this < m \<longrightarrow>
            (r = Throw) = (\<exists>y\<in>set ys. copy_throws T y)
          \<and> (r = Throw \<longrightarrow> objs' = objs \<and> blocks h' = blocks h)
          \<and> (r \<noteq> Throw \<longrightarrow> r = Ok ()
                \<and> objs' = objs(i := \<lparr>data = \<lparr>buffer = Some b, capacity = m\<rparr>, vsize = m\<rparr>)
                \<and> holds_copy h' (objs' i) (objs' j) ys
                \<and> trace h' = trace h @ Allocate b m # map CopyConstruct (slots b 0 m)
                     @ map (\<lambda>k. Destroy (buffer (data this), k)) [0..<n]
                     @ (case buffer (data this) of None \<Rightarrow> [] | Some a \<Rightarrow> [Deallocate a])))
       \<and> (m \<le> Capacity this \<and> (\<forall>y\<in>set (take n ys). \<not> copy_assign_throws T y)
              \<and> (\<forall>y\<in>set (drop n ys). \<not> copy_throws T y) \<longrightarrow>
            r = Ok () \<and> objs' = objs(i := this\<lparr>vsize := m\<rparr>)
          \<and> holds_copy h' (objs' i) (objs' j) ys
          \<and> trace h' = trace h @ map (\<lambda>k. CopyAssign (buffer (data this), k)) [0..<min n m]
               @ map (\<lambda>k. Destroy (buffer (data this), k)) [m..<n]
               @ map (\<lambda>k. CopyConstruct (buffer (data this), k)) [n..<m])"
proof -
  obtain this' where ca: "Vector_copy_assign T this rhs h = (r, this', h')"
    and o': "objs' = objs(i := this')"
    using res ij by (auto simp: assign_copy_def this_def rhs_def split: prod.splits)
  have ly: "length ys = m"
    using okr by (cases "buffer (data rhs)") (auto simp: vec_ok_block(2) vec_ok_null ys_def m_def)
  have oj: "objs' j = rhs" "objs' i = this'" using ij by (simp_all add: o' rhs_def)
  have big: ?thesis if big: "Capacity this < m"
  proof -
    have c: "capacity (data this) < vsize rhs" using big by (simp add: Capacity_def m_def)
    note R = Vector_copy_assign_realloc[OF okt okr fresh c ca, folded b_def m_def ys_def]
    have m0: "0 < vsize rhs" using c by simp
    obtain s where s: "buffer (data rhs) = Some s"
      using vec_ok_null(2)[OF okr] m0 by (cases "buffer (data rhs)") auto
    have sb: "s \<noteq> b" using vec_ok_block(1)[OF okr s] fresh by (auto simp: b_def)
    have sa: "Some s \<noteq> buffer (data this)" using dist s by auto
    have T: "objs' = objs \<and> blocks h' = blocks h" if "r = Throw"
      using R(2)[OF that] by (simp add: o' this_def)
    have O: "r = Ok () \<and> objs' = objs(i := \<lparr>data = \<lparr>buffer = Some b, capacity = m\<rparr>, vsize = m\<rparr>)
                \<and> holds_copy h' (objs' i) (objs' j) ys
                \<and> trace h' = trace h @ Allocate b m # map CopyConstruct (slots b 0 m)
                     @ map (\<lambda>k. Destroy (buffer (data this), k)) [0..<n]
                     @ (case buffer (data this) of None \<Rightarrow> [] | Some a \<Rightarrow> [Deallocate a])"
      if "r \<noteq> Throw"
    proof -
      note r = R(3)[OF that]
      have t': "this' = \<lparr>data = \<lparr>buffer = Some b, capacity = m\<rparr>, vsize = m\<rparr>" using r by simp
      have bb: "blocks h' b = Some (map Some ys @ replicate 0 None)" using r by simp
      have v1: "vec_ok h' this'" "elems h' this' = ys"
        using vec_okI[of this' b h' ys 0, OF _ bb] ly m0 by (simp_all add: t' m_def)
      have "blocks h' s = blocks h s" using r sb sa by blast
      then have v2: "vec_ok h' rhs" "elems h' rhs = ys"
        using vec_ok_cong[OF s, of h' h] okr by (simp_all add: ys_def)
      have hc: "holds_copy h' (objs' i) (objs' j) ys"
        unfolding oj using v1 v2 ly by (simp add: holds_copy_def t')
      have oo: "objs' = objs(i := \<lparr>data = \<lparr>buffer = Some b, capacity = m\<rparr>, vsize = m\<rparr>)"
        using o' t' by simp
      have tr: "trace h' = trace h @ Allocate b m # map CopyConstruct (slots b 0 m)
                     @ map (\<lambda>k. Destroy (buffer (data this), k)) [0..<n]
                     @ (case buffer (data this) of None \<Rightarrow> [] | Some a \<Rightarrow> [Deallocate a])"
        using r by (simp add: n_def)
      show ?thesis by (intro conjI) (rule r[THEN conjunct1] oo hc tr)+
    qed
    have X2: "r = Throw \<longrightarrow> objs' = objs \<and> blocks h' = blocks h"
      using T by (rule impI)
    have X3: "r \<noteq> Throw \<longrightarrow> r = Ok ()
                \<and> objs' = objs(i := \<lparr>data = \<lparr>buffer = Some b, capacity = m\<rparr>, vsize = m\<rparr>)
                \<and> holds_copy h' (objs' i) (objs' j) ys
                \<and> trace h' = trace h @ Allocate b m # map CopyConstruct (slots b 0 m)
                     @ map (\<lambda>k. Destroy (buffer (data this), k)) [0..<n]
                     @ (case buffer (data this) of None \<Rightarrow> [] | Some a \<Rightarrow> [Deallocate a])"
      using O by (rule impI)
    have nf: "\<not> m \<le> Capacity this" using big by simp
    show ?thesis
      by (rule two_branches[OF conjI[OF R(1) conjI[OF X2 X3]]]) (use nf in simp)
  qed
  have small: ?thesis if fits: "m \<le> Capacity this"
  proof -
    have f: "vsize rhs \<le> capacity (data this)" using fits by (simp add: Capacity_def m_def)
    have "r = Ok () \<and> objs' = objs(i := this\<lparr>vsize := m\<rparr>)
          \<and> holds_copy h' (objs' i) (objs' j) ys
          \<and> trace h' = trace h @ map (\<lambda>k. CopyAssign (buffer (data this), k)) [0..<min n m]
               @ map (\<lambda>k. Destroy (buffer (data this), k)) [m..<n]
               @ map (\<lambda>k. CopyConstruct (buffer (data this), k)) [n..<m]"
      if noA: "\<forall>y\<in>set (take n ys). \<not> copy_assign_throws T y"
        and noC: "\<forall>y\<in>set (drop n ys). \<not> copy_throws T y"
    proof -
      from Vector_copy_assign_inplace[OF okt okr dist f noA[unfolded n_def ys_def] noC[unfolded n_def ys_def],
          folded m_def n_def ys_def]
      obtain hf where 1: "Vector_copy_assign T this rhs h = (Ok (), this\<lparr>vsize := m\<rparr>, hf)"
        and 2: "elems hf (this\<lparr>vsize := m\<rparr>) = ys" "vec_ok hf (this\<lparr>vsize := m\<rparr>)"
        and 3: "\<forall>c. Some c \<noteq> buffer (data this) \<longrightarrow> blocks hf c = blocks h c"
        and 4: "trace hf = trace h @ map (\<lambda>k. CopyAssign (buffer (data this), k)) [0..<min n m]
               @ map (\<lambda>k. Destroy (buffer (data this), k)) [m..<n]
               @ map (\<lambda>k. CopyConstruct (buffer (data this), k)) [n..<m]"
        by blast
      have e: "r = Ok ()" "this' = this\<lparr>vsize := m\<rparr>" "h' = hf" using 1 ca by simp_all
      have fr: "blocks hf c = blocks h c" if "buffer (data rhs) = Some c" for c
        using 3 dist that by (metis option.distinct(1))
      have v2: "vec_ok hf rhs" "elems hf rhs = ys"
        using vec_ok_frame[OF okr fr] by (simp_all add: ys_def)
      have hc: "holds_copy h' (objs' i) (objs' j) ys"
        unfolding oj using 2 v2 ly by (simp add: holds_copy_def e)
      have oo: "objs' = objs(i := this\<lparr>vsize := m\<rparr>)" using o' e by simp
      show ?thesis unfolding e(3) by (intro conjI) (rule e(1) oo hc[unfolded e(3)] 4)+
    qed
    moreover have "\<not> Capacity this < m" using fits by simp
    ultimately show ?thesis by (rule two_branches')
  qed
  show ?thesis
  proof (cases "Capacity this < m")
    case True
    then show ?thesis by (rule big)
  next
    case False
    then have "m \<le> Capacity this" by simp
    then show ?thesis by (rule small)
  qed
qed

theorem copy_assignment_witness:
  "vec_ok three_heap (three_objs 0) \<and> vec_ok three_heap (three_objs 1) \<and> vec_ok three_heap (three_objs 2)
   \<and> blocks three_heap (next_addr three_heap) = None
   \<and> elems three_heap (three_objs 0) = [1] \<and> elems three_heap (three_objs 1) = [7, 8, 9]
   \<and> elems three_heap (three_objs 2) = [5, 6]
   \<and> fst (assign_three T_int 0 1) = Ok ()
   \<and> elems (snd (snd (assign_three T_int 0 1))) (fst (snd (assign_three T_int 0 1)) 0) = [7, 8, 9]
   \<and> elems (snd (snd (assign_three T_int 0 1))) (fst (snd (assign_three T_int 0 1)) 1) = [7, 8, 9]
   \<and> fst (assign_three (T_copy_throws_on 8) 0 1) = Throw
   \<and> fst (snd (assign_three (T_copy_throws_on 8) 0 1)) = three_objs
   \<and> blocks (snd (snd (assign_three (T_copy_throws_on 8) 0 1))) = blocks three_heap
   \<and> fst (assign_three T_int 1 0) = Ok ()
   \<and> elems (snd (snd (assign_three T_int 1 0))) (fst (snd (assign_three T_int 1 0)) 1) = [1]
   \<and> trace (snd (snd (assign_three T_int 1 0)))
        = [CopyAssign (Some 1, 0), Destroy (Some 1, 1), Destroy (Some 1, 2)]
   \<and> fst (assign_three T_int 0 2) = Ok ()
   \<and> elems (snd (snd (assign_three T_int 0 2))) (fst (snd (assign_three T_int 0 2)) 0) = [5, 6]
   \<and> trace (snd (snd (assign_three T_int 0 2))) = [CopyAssign (Some 0, 0), CopyConstruct (Some 0, 1)]"
proof -
  have v: "vec_ok three_heap (three_objs 0)" "vec_ok three_heap (three_objs 1)"
    "vec_ok three_heap (three_objs 2)" "blocks three_heap (next_addr three_heap) = None"
    by (simp_all add: vec_ok_def three_heap_def three_objs_def)
  have e: "elems three_heap (three_objs 0) = [1]" "elems three_heap (three_objs 1) = [7, 8, 9]"
    "elems three_heap (three_objs 2) = [5, 6]"
    by (simp_all add: elems_def three_heap_def three_objs_def)
  have d: "buffer (data (three_objs 0)) \<noteq> buffer (data (three_objs 1)) \<or> buffer (data (three_objs 0)) = None"
    "buffer (data (three_objs 1)) \<noteq> buffer (data (three_objs 0)) \<or> buffer (data (three_objs 1)) = None"
    "buffer (data (three_objs 0)) \<noteq> buffer (data (three_objs 2)) \<or> buffer (data (three_objs 0)) = None"
    by (simp_all add: three_objs_def)
  have n: "(0::vref) \<noteq> 1" "(1::vref) \<noteq> 0" "(0::vref) \<noteq> 2" by simp_all
  have s: "vsize (three_objs 0) = 1" "vsize (three_objs 1) = 3" "vsize (three_objs 2) = 2"
    "Capacity (three_objs 0) = 2" "Capacity (three_objs 1) = 3" "buffer (data (three_objs 0)) = Some 0"
    "buffer (data (three_objs 1)) = Some 1" "trace three_heap = []"
    by (simp_all add: three_objs_def Capacity_def three_heap_def)
  have t: "copy_throws T_int = (\<lambda>_. False)" "copy_assign_throws T_int = (\<lambda>_. False)"
    "copy_throws (T_copy_throws_on 8) = (\<lambda>x. x = 8)"
    by (simp_all add: T_int_def T_copy_throws_on_def)
  have r: "assign_copy T i j (three_objs, three_heap)
     = (fst (assign_three T i j), fst (snd (assign_three T i j)), snd (snd (assign_three T i j)))" for T i j
    by (simp add: assign_three_def)
  note A = copy_assignment[OF n(1) v(1,2) d(1) v(4) r, of T_int, unfolded e s t, THEN conjunct1]
  note B = copy_assignment[OF n(1) v(1,2) d(1) v(4) r, of "T_copy_throws_on 8", unfolded e s t, THEN conjunct1]
  note C = copy_assignment[OF n(2) v(2,1) d(2) v(4) r, of T_int, unfolded e s t, THEN conjunct2]
  note D = copy_assignment[OF n(3) v(1,3) d(3) v(4) r, of T_int, unfolded e s t, THEN conjunct2]
  have lt: "(2::nat) < 3" by simp
  note A' = A[THEN mp, OF lt]
  from A'[THEN conjunct1] have na: "fst (assign_three T_int 0 1) \<noteq> Throw" by simp
  note A3 = A'[THEN conjunct2, THEN conjunct2, THEN mp, OF na]
  have a: "fst (assign_three T_int 0 1) = Ok ()"
    "holds_copy (snd (snd (assign_three T_int 0 1))) (fst (snd (assign_three T_int 0 1)) 0)
       (fst (snd (assign_three T_int 0 1)) 1) [7, 8, 9]"
    by (rule A3[THEN conjunct1], rule A3[THEN conjunct2, THEN conjunct2, THEN conjunct1])
  note B' = B[THEN mp, OF lt]
  from B'[THEN conjunct1] have tb: "fst (assign_three (T_copy_throws_on 8) 0 1) = Throw" by simp
  note B2 = B'[THEN conjunct2, THEN conjunct1, THEN mp, OF tb]
  have b: "fst (assign_three (T_copy_throws_on 8) 0 1) = Throw"
    "fst (snd (assign_three (T_copy_throws_on 8) 0 1)) = three_objs"
    "blocks (snd (snd (assign_three (T_copy_throws_on 8) 0 1))) = blocks three_heap"
    by (rule tb, rule B2[THEN conjunct1], rule B2[THEN conjunct2])
  have pc: "(1::nat) \<le> 3 \<and> (\<forall>y\<in>set (take 3 [1::int]). \<not> False) \<and> (\<forall>y\<in>set (drop 3 [1::int]). \<not> False)"
    by simp
  note C' = C[THEN mp, OF pc]
  have c: "fst (assign_three T_int 1 0) = Ok ()"
    "holds_copy (snd (snd (assign_three T_int 1 0))) (fst (snd (assign_three T_int 1 0)) 1)
       (fst (snd (assign_three T_int 1 0)) 0) [1]"
    by (rule C'[THEN conjunct1], rule C'[THEN conjunct2, THEN conjunct2, THEN conjunct1])
  have c3: "trace (snd (snd (assign_three T_int 1 0)))
        = [CopyAssign (Some 1, 0), Destroy (Some 1, 1), Destroy (Some 1, 2)]"
    using C'[THEN conjunct2, THEN conjunct2, THEN conjunct2] by (simp add: upt_rec numeral_eq_Suc)
  have pd: "(2::nat) \<le> 2 \<and> (\<forall>y\<in>set (take 1 [5::int, 6]). \<not> False) \<and> (\<forall>y\<in>set (drop 1 [5::int, 6]). \<not> False)"
    by simp
  note D' = D[THEN mp, OF pd]
  have dd: "fst (assign_three T_int 0 2) = Ok ()"
    "holds_copy (snd (snd (assign_three T_int 0 2))) (fst (snd (assign_three T_int 0 2)) 0)
       (fst (snd (assign_three T_int 0 2)) 2) [5, 6]"
    by (rule D'[THEN conjunct1], rule D'[THEN conjunct2, THEN conjunct2, THEN conjunct1])
  have d3: "trace (snd (snd (assign_three T_int 0 2))) = [CopyAssign (Some 0, 0), CopyConstruct (Some 0, 1)]"
    using D'[THEN conjunct2, THEN conjunct2, THEN conjunct2] by (simp add: upt_rec numeral_eq_Suc)
  show ?thesis
    using v e a(1) a(2)[unfolded holds_copy_def] b c(1) c3 c(2)[unfolded holds_copy_def]
      dd(1) d3 dd(2)[unfolded holds_copy_def]
    by simp
qed

subsection \<open>Allocations during a call\<close>

lemma no_allocI: "trace h' = trace h @ es \<Longrightarrow> filter is_Allocate es = [] \<Longrightarrow> no_alloc h h'"
  by (simp add: no_alloc_def continues_def new_events_def)

lemma no_allocD: "no_alloc h h' \<Longrightarrow> \<exists>es. trace h' = trace h @ es \<and> filter is_Allocate es = []"
  unfolding no_alloc_def continues_def new_events_def by (metis append_take_drop_id)

lemma no_alloc_refl [simp]: "no_alloc h h"
  by (rule no_allocI[of _ _ "[]"]) simp_all

lemma no_alloc_trans:
  assumes "no_alloc h h1" "no_alloc h1 h2"
  shows "no_alloc h h2"
proof -
  from no_allocD[OF assms(1)] obtain es1 where 1: "trace h1 = trace h @ es1" "filter is_Allocate es1 = []"
    by blast
  from no_allocD[OF assms(2)] obtain es2 where 2: "trace h2 = trace h1 @ es2" "filter is_Allocate es2 = []"
    by blast
  show ?thesis by (rule no_allocI[of _ _ "es1 @ es2"]) (simp_all add: 1 2)
qed


lemma na_and_then:
  assumes "no_alloc h (snd m)" "\<And>r s. no_alloc s (snd (f r s))"
  shows "no_alloc h (snd (and_then m f))"
proof (cases m)
  case (Pair r s)
  show ?thesis using assms(1) assms(2)[of s] by (cases r) (auto simp: Pair intro: no_alloc_trans)
qed


lemma na_log: "\<not> is_Allocate e \<Longrightarrow> no_alloc h h1 \<Longrightarrow> no_alloc h (log e h1)"
  by (rule no_alloc_trans[of h h1]) (auto intro: no_allocI[of _ _ "[e]"] simp: log_def)

lemma trace_store [simp]: "trace (store p x h) = trace h"
  by (simp add: store_def split: option.splits)

lemma na_store [simp]: "no_alloc h (store p x h)"
  by (rule no_allocI[of _ _ "[]"]) simp_all

lemma na_store_trans: "no_alloc h h1 \<Longrightarrow> no_alloc h (store p x h1)"
  by (rule no_alloc_trans[of h h1]) simp_all

lemma na_construct_at: "\<not> is_Allocate (ev p) \<Longrightarrow> no_alloc h (snd (construct_at ev p x h))"
  by (auto simp: construct_at_def intro!: na_log split: option.splits)

lemma na_destroy_at [simp]: "no_alloc h (snd (destroy_at p h))"
  by (auto simp: destroy_at_def intro!: na_log split: option.splits)

lemma na_destroy_n [simp]: "no_alloc h (snd (destroy_n p n h))"
  by (induction n arbitrary: p h) (auto intro!: na_and_then simp: ptr_add_def)

lemma construct_from_event:
  "construct_from T args = Some (x, ev) \<Longrightarrow> \<not> is_Allocate (ev p)"
  by (auto simp: construct_from_def split: ctor_args.splits if_splits option.splits)

lemma na_placement_new [simp]: "no_alloc h (snd (placement_new T p args h))"
  by (auto simp: placement_new_def intro!: na_construct_at construct_from_event split: option.splits)

lemma na_copy_construct_loop [simp]: "no_alloc h (snd (copy_construct_loop T src n dst k h))"
  by (induction n arbitrary: src k h)
     (auto intro!: na_and_then na_construct_at simp: ptr_add_def split: option.splits)

lemma na_move_construct_loop [simp]: "no_alloc h (snd (move_construct_loop T src n dst k h))"
proof (induction n arbitrary: src k h)
  case 0
  then show ?case by simp
next
  case (Suc n)
  have 1: "no_alloc s (snd (move_construct_loop T src' n dst (Suc k)
                       (store src (Some (moved_from T x)) s)))" for s x src'
    by (rule no_alloc_trans[OF na_store Suc.IH])
  show ?case
    by (auto intro!: na_and_then na_construct_at 1 split: option.splits)
qed

lemma na_TransferDataSafely [simp]: "no_alloc h (snd (TransferDataSafely T src n dst h))"
  by (simp add: TransferDataSafely_def uninitialized_move_n_def uninitialized_copy_n_def)

lemma na_move_assign_at [simp]: "no_alloc h (snd (move_assign_at T dst src h))"
  by (auto simp: move_assign_at_def intro!: na_log na_store_trans split: option.splits)

lemma na_move_backward [simp]: "no_alloc h (snd (move_backward T first n d_first h))"
  by (induction n arbitrary: h) (auto intro!: na_and_then)

lemma na_move_construct_at [simp]: "no_alloc h (snd (move_construct_at T dst src h))"
  by (auto simp: move_construct_at_def intro!: na_and_then na_construct_at split: option.splits)

lemma na_assign_temporary [simp]: "no_alloc h (snd (assign_temporary T d offset args h))"
  by (auto simp: assign_temporary_def RawMemory_index_def intro!: na_log na_store_trans
      split: option.splits)

lemma na_RawMemory_dtor [simp]: "no_alloc h (snd (RawMemory_dtor r h))"
  by (auto simp: RawMemory_dtor_def Deallocate_raw_def log_def intro!: no_allocI[of _ _ "[Deallocate a]" for a]
      split: option.splits)






subsection \<open>Insertions that return normally\<close>




lemma not_Ok_and_then:
  assumes "\<And>q. r \<noteq> Ok q"
  shows "fst (and_then (r, s) f) = r" "\<And>q. fst (and_then (r, s) f) \<noteq> Ok q"
  using assms by (cases r; simp)+


subsection \<open>The steps of an insertion in place\<close>






subsection \<open>Emplace that returns normally\<close>







subsection \<open>When an insertion reallocates\<close>






lemma discard_discard: "discard (discard s) = discard s"
  by (cases s; cases "fst s") (auto simp: discard_def)



end
